theory Spec2Isabelle
  imports Main
begin

section \<open>The welcome-email job (email\_send/emailsend.py)\<close>

text \<open>
  The program is a single Python module: it validates its configuration while it is
  imported, then \<open>main\<close> either sends one test mail or polls the \<open>users\<close> collection
  for ever.  Every effect is made explicit here: the collection, the log and the
  calls that leave the process are fields of a state record, and what the outside
  (file system, clock, mail relay, database, signals) answers is read from a
  \<open>world\<close> record of oracles, indexed by a counter of the external calls made so far.
\<close>

subsection \<open>Exceptions\<close>

text \<open>
  \<open>except Exception\<close> catches the subclasses of \<open>Exception\<close> only; \<open>SystemExit\<close>
  (raised by \<open>sys.exit\<close>) and \<open>KeyboardInterrupt\<close> derive from \<open>BaseException\<close>
  and pass through such a handler.  A library call can fail with an \<open>Exception\<close> or be
  interrupted; \<open>SystemExit\<close> is raised by the program's own \<open>sys.exit\<close> calls only.
\<close>

datatype err =
    FileNotFoundError | OSError | ValueError | KeyError | IndexError
  | UnicodeEncodeError | AttributeError | OverflowError
  | SMTPException | PyMongoError

datatype py_exn = SystemExit nat | KeyboardInterrupt | Exception err

datatype fault = Interrupt | Fails err

fun raised :: "fault \<Rightarrow> py_exn" where
  "raised Interrupt = KeyboardInterrupt"
| "raised (Fails e) = Exception e"

fun is_Exception :: "py_exn \<Rightarrow> bool" where
  "is_Exception (Exception e) = True"
| "is_Exception (SystemExit n) = False"
| "is_Exception KeyboardInterrupt = False"

subsection \<open>\<open>str.format\<close> with the keywords \<open>first_name\<close> and \<open>year\<close>\<close>

text \<open>
  Line 65: \<open>html_template.format(first_name=first_name, year=year)\<close>.  Strings are
  byte strings (the UTF-8 text of the file).  The format string is read from left to
  right: \<open>{{\<close> and \<open>}}\<close> stand for one brace, a lone \<open>}\<close> or an unclosed \<open>{\<close> raises
  \<open>ValueError\<close>, and \<open>{name}\<close> is replaced by the keyword argument of that name.  With
  no positional argument, an empty or numeric field name raises \<open>IndexError\<close>
  (\<open>ValueError\<close> when the number does not fit \<open>Py_ssize_t\<close>), an unknown name
  \<open>KeyError\<close>.  A field that uses attribute access, indexing, a conversion or a
  format spec (one of \<open>. [ ! :\<close>), or a byte outside ASCII, is not expanded here: the
  rest of the string is handed to the parameter \<open>ext\<close>, which stands for that part of
  the library.
\<close>

definition is_digit :: "char \<Rightarrow> bool" where
  "is_digit c = (c \<in> set ''0123456789'')"

definition digit_char :: "nat \<Rightarrow> char" where
  "digit_char d = char_of (48 + d)"

fun str_nat :: "nat \<Rightarrow> string" where
  "str_nat n = (if n < 10 then [digit_char n] else str_nat (n div 10) @ [digit_char (n mod 10)])"

fun digits_value :: "int \<Rightarrow> string \<Rightarrow> int" where
  "digits_value acc [] = acc"
| "digits_value acc (c # cs) = digits_value (acc * 10 + (of_char c - 48)) cs"

definition PY_SSIZE_T_MAX :: int where
  "PY_SSIZE_T_MAX = 9223372036854775807"

definition structured_char :: "char \<Rightarrow> bool" where
  "structured_char c = (c \<in> set ''.[!:'' \<or> (128::int) \<le> of_char c)"

datatype field_scan = Closed string string | Unclosed | Nested_Brace | Structured

fun scan_field :: "string \<Rightarrow> field_scan" where
  "scan_field [] = Unclosed"
| "scan_field (c # cs) =
    (if c = CHR ''}'' then Closed [] cs
     else if c = CHR ''{'' then Nested_Brace
     else if structured_char c then Structured
     else (case scan_field cs of
             Closed f rest \<Rightarrow> Closed (c # f) rest
           | other \<Rightarrow> other))"

definition lookup_field :: "string \<Rightarrow> string \<Rightarrow> nat \<Rightarrow> err + string" where
  "lookup_field f first_name year =
    (if f = [] then Inl IndexError
     else if list_all is_digit f then
       (if PY_SSIZE_T_MAX < digits_value 0 f then Inl ValueError else Inl IndexError)
     else if f = ''first_name'' then Inr first_name
     else if f = ''year'' then Inr (str_nat year)
     else Inl KeyError)"

fun prepend :: "string \<Rightarrow> err + string \<Rightarrow> err + string" where
  "prepend v (Inl e) = Inl e"
| "prepend v (Inr s) = Inr (v @ s)"

function py_format ::
  "(string \<Rightarrow> string \<Rightarrow> nat \<Rightarrow> err + string) \<Rightarrow> string \<Rightarrow> string \<Rightarrow> nat \<Rightarrow> err + string"
where
  "py_format ext [] first_name year = Inr []"
| "py_format ext (c # cs) first_name year =
    (if c = CHR ''{'' then
       (case cs of
          [] \<Rightarrow> Inl ValueError
        | d # ds \<Rightarrow>
            if d = CHR ''{'' then prepend ''{'' (py_format ext ds first_name year)
            else (case scan_field cs of
                    Unclosed \<Rightarrow> Inl ValueError
                  | Nested_Brace \<Rightarrow> Inl ValueError
                  | Structured \<Rightarrow> ext (c # cs) first_name year
                  | Closed f rest \<Rightarrow>
                      (case lookup_field f first_name year of
                         Inl e \<Rightarrow> Inl e
                       | Inr v \<Rightarrow> prepend v (py_format ext rest first_name year))))
     else if c = CHR ''}'' then
       (case cs of
          [] \<Rightarrow> Inl ValueError
        | d # ds \<Rightarrow>
            if d = CHR ''}'' then prepend ''}'' (py_format ext ds first_name year)
            else Inl ValueError)
     else prepend [c] (py_format ext cs first_name year))"
  by pat_completeness auto
termination
proof -
  have shorter: "length rest < length cs" if "scan_field cs = Closed f rest" for cs f rest
    using that by (induction cs arbitrary: f) (auto split: if_splits field_scan.splits)
  show ?thesis
    by (relation "measure (\<lambda>(ext, s, first_name, year). length s)")
       (auto dest: shorter simp del: scan_field.simps)
qed

subsection \<open>Documents, log, state and the outside\<close>

text \<open>
  A document of the \<open>users\<close> collection: \<open>uid\<close> is its \<open>_id\<close>; a field that is absent
  is \<open>None\<close>.  The collection is a list (the order in which a query returns the
  documents); MongoDB keeps \<open>_id\<close> unique, which the theorems state as
  \<open>distinct (map uid (users st))\<close> where they need it.
\<close>

record user =
  uid :: nat
  userId :: "string option"
  email :: "string option"
  firstName :: "string option"
  welcome_email_sent :: "bool option"

record config =
  MONGODB_URI :: "string option"
  MONGODB_DATABASE :: "string option"
  GMAIL_USER :: "string option"
  GMAIL_APP_PASSWORD :: "string option"
  FROM_NAME :: string

text \<open>The namespace returned by \<open>parser.parse_args()\<close> (lines 142-146).\<close>

record args =
  test :: bool
  test_email :: "string option"
  interval :: int

datatype level = INFO | WARNING | ERROR

text \<open>One constructor for each logging call of the module, in source order.\<close>

datatype log_msg =
    Mongodb_Uri_Not_Set
  | Gmail_Not_Set
  | Template_Not_Found
  | Email_Sent string
  | Send_Failed string py_exn
  | Sending_Test string
  | Test_Sent string
  | Test_Failed string
  | No_New_Users
  | Found_Users nat
  | Error_Querying py_exn
  | No_Email_Skipping string
  | Marked_Emailed string
  | Update_Failed string py_exn
  | Will_Retry string
  | Need_Test_Email
  | Connected
  | Connect_Failed py_exn
  | Starting int
  | Sleeping int
  | Interrupted
  | Unexpected py_exn

text \<open>
  What the process does that can be observed: a log line, a call of
  \<open>send_welcome_email\<close> (recipient, first name), an SMTP session opened for a message
  (sender account, recipient, HTML body), the calls on the collection, the sleep.
\<close>

datatype event =
    Logged level log_msg
  | Send_Call string string
  | Smtp_Session "string option" string string
  | Mongo_Client
  | Count_Documents
  | Find_Query
  | Update_One nat
  | Sleep int

record state =
  users :: "user list"
  trace :: "event list"
  tick :: nat

text \<open>
  The answers of the outside.  \<open>None\<close> (or \<open>Inr\<close>) is success.  An oracle indexed by
  \<open>nat\<close> is asked at the current \<open>tick\<close>, which every external call advances, so a
  world fixes the outcome of every call of a run, in any pattern.
  \<open>smtp_session\<close> is the outcome of the whole \<open>try\<close> block of lines 76-80: opening
  the connection, \<open>login\<close>, \<open>message.as_string()\<close>, \<open>sendmail\<close> and leaving the
  \<open>with\<close> block.  \<open>named_database\<close> is \<open>client[MONGODB_DATABASE]\<close>, which checks the
  name; \<open>monotonic_ns\<close> is the monotonic clock that \<open>time.sleep\<close> reads, in
  nanoseconds.
\<close>

record world =
  now_year :: "nat \<Rightarrow> nat"
  template_file :: "nat \<Rightarrow> fault + string"
  format_ext :: "string \<Rightarrow> string \<Rightarrow> nat \<Rightarrow> err + string"
  smtp_session :: "nat \<Rightarrow> fault option"
  mongo_client :: "fault option"
  default_database :: "fault option"
  named_database :: "string \<Rightarrow> fault option"
  monotonic_ns :: "nat \<Rightarrow> int"
  count_documents_fault :: "nat \<Rightarrow> fault option"
  find_fault :: "nat \<Rightarrow> fault option"
  cursor_fault :: "nat \<Rightarrow> fault option"
  update_one_fault :: "nat \<Rightarrow> fault option"
  sleep_fault :: "nat \<Rightarrow> fault option"

definition emit :: "event \<Rightarrow> state \<Rightarrow> state" where
  "emit ev st = st\<lparr>trace := trace st @ [ev]\<rparr>"

definition logging :: "level \<Rightarrow> log_msg \<Rightarrow> state \<Rightarrow> state" where
  "logging l m st = emit (Logged l m) st"

definition external :: "state \<Rightarrow> state" where
  "external st = st\<lparr>tick := Suc (tick st)\<rparr>"

text \<open>Python's \<open>not x\<close> for a value that is \<open>None\<close> or a string.\<close>

definition falsy :: "string option \<Rightarrow> bool" where
  "falsy x = (x = None \<or> x = Some [])"

subsection \<open>Template and mail dispatch (lines 50-94)\<close>

definition load_email_template :: "world \<Rightarrow> state \<Rightarrow> (py_exn + string) \<times> state" where
  "load_email_template w st =
    (case template_file w (tick st) of
       Inr text \<Rightarrow> (Inr text, external st)
     | Inl f \<Rightarrow>
         if f = Fails FileNotFoundError
         then (Inl (SystemExit 1), logging ERROR Template_Not_Found (external st))
         else (Inl (raised f), external st))"

text \<open>
  Lines 67-74, the message, built before the \<open>try\<close>.  Strings are the UTF-8 bytes of
  Python's text; a byte that is not part of well-formed UTF-8 stands for the lone
  surrogate that \<open>os.environ\<close> decodes it to.  \<open>Header(FROM_NAME, 'utf-8')\<close> raises
  \<open>UnicodeEncodeError\<close> when the name cannot be encoded (it holds a surrogate), and
  \<open>formataddr\<close> encodes the address in ASCII: it raises \<open>UnicodeEncodeError\<close> for an
  address that is not ASCII, and \<open>AttributeError\<close> for \<open>None\<close>.  Setting the \<open>To\<close>
  and \<open>Subject\<close> headers and attaching the \<open>MIMEText\<close> body (encoded with
  \<open>surrogateescape\<close>) do not raise; the headers are checked by \<open>as_string\<close>, inside
  the \<open>try\<close>.
\<close>

definition in_range :: "int \<Rightarrow> int \<Rightarrow> char \<Rightarrow> bool" where
  "in_range lo hi c = (lo \<le> of_char c \<and> (of_char c :: int) \<le> hi)"

definition is_ascii :: "string \<Rightarrow> bool" where
  "is_ascii s = list_all (in_range 0 127) s"

fun valid_utf8 :: "string \<Rightarrow> bool" where
  "valid_utf8 [] = True"
| "valid_utf8 [a] = in_range 0 127 a"
| "valid_utf8 [a, b] =
    (if in_range 0 127 a then valid_utf8 [b]
     else in_range 194 223 a \<and> in_range 128 191 b)"
| "valid_utf8 [a, b, c] =
    (if in_range 0 127 a then valid_utf8 [b, c]
     else if in_range 194 223 a then in_range 128 191 b \<and> valid_utf8 [c]
     else in_range 224 239 a
          \<and> in_range (if in_range 224 224 a then 160 else 128)
                (if in_range 237 237 a then 159 else 191) b
          \<and> in_range 128 191 c)"
| "valid_utf8 (a # b # c # d # rest) =
    (if in_range 0 127 a then valid_utf8 (b # c # d # rest)
     else if in_range 194 223 a then in_range 128 191 b \<and> valid_utf8 (c # d # rest)
     else if in_range 224 239 a then
       in_range (if in_range 224 224 a then 160 else 128)
         (if in_range 237 237 a then 159 else 191) b
       \<and> in_range 128 191 c \<and> valid_utf8 (d # rest)
     else in_range 240 244 a
          \<and> in_range (if in_range 240 240 a then 144 else 128)
                (if in_range 244 244 a then 143 else 191) b
          \<and> in_range 128 191 c \<and> in_range 128 191 d \<and> valid_utf8 rest)"

record message =
  msg_from_name :: string
  msg_from :: string
  msg_subject :: string
  msg_to :: string
  msg_html :: string

definition build_message :: "config \<Rightarrow> string \<Rightarrow> string \<Rightarrow> err + message" where
  "build_message cfg to_email html_content =
    (if \<not> valid_utf8 (FROM_NAME cfg) then Inl UnicodeEncodeError
     else (case GMAIL_USER cfg of
             None \<Rightarrow> Inl AttributeError
           | Some address \<Rightarrow>
               if \<not> is_ascii address then Inl UnicodeEncodeError
               else Inr \<lparr>msg_from_name = FROM_NAME cfg, msg_from = address,
                         msg_subject = ''Welcome to WildVision!'', msg_to = to_email,
                         msg_html = html_content\<rparr>))"

definition send_welcome_email ::
  "world \<Rightarrow> config \<Rightarrow> string \<Rightarrow> string \<Rightarrow> state \<Rightarrow> (py_exn + bool) \<times> state"
where
  "send_welcome_email w cfg to_email first_name st0 =
    (let st = emit (Send_Call to_email first_name) st0;
         year = now_year w (tick st)
     in case load_email_template w st of
          (Inl e, st1) \<Rightarrow> (Inl e, st1)
        | (Inr html_template, st1) \<Rightarrow>
            (case py_format (format_ext w) html_template first_name year of
               Inl e \<Rightarrow> (Inl (Exception e), st1)
             | Inr html_content \<Rightarrow>
                 (case build_message cfg to_email html_content of
                    Inl e \<Rightarrow> (Inl (Exception e), st1)
                  | Inr message \<Rightarrow>
                      (let st2 = external
                             (emit (Smtp_Session (GMAIL_USER cfg) to_email (msg_html message)) st1)
                       in case smtp_session w (tick st1) of
                            None \<Rightarrow> (Inr True, logging INFO (Email_Sent to_email) st2)
                          | Some f \<Rightarrow>
                              if is_Exception (raised f)
                              then (Inr False,
                                    logging ERROR (Send_Failed to_email (raised f)) st2)
                              else (Inl (raised f), st2)))))"

definition send_test_email ::
  "world \<Rightarrow> config \<Rightarrow> string \<Rightarrow> state \<Rightarrow> (py_exn + unit) \<times> state"
where
  "send_test_email w cfg addr st =
    (case send_welcome_email w cfg addr ''Test User'' (logging INFO (Sending_Test addr) st) of
       (Inl e, st1) \<Rightarrow> (Inl e, st1)
     | (Inr success, st1) \<Rightarrow>
         if success then (Inr (), logging INFO (Test_Sent addr) st1)
         else (Inr (), logging ERROR (Test_Failed addr) st1))"

subsection \<open>The collection (lines 100-111, 129-132)\<close>

text \<open>
  The query \<open>{'$or': [{'welcome_email_sent': {'$exists': False}},
  {'welcome_email_sent': False}]}\<close>.
\<close>

definition pending :: "user \<Rightarrow> bool" where
  "pending u = (welcome_email_sent u = None \<or> welcome_email_sent u = Some False)"

definition count_documents :: "world \<Rightarrow> state \<Rightarrow> (py_exn + nat) \<times> state" where
  "count_documents w st =
    (let st1 = external (emit Count_Documents st)
     in case count_documents_fault w (tick st) of
          Some f \<Rightarrow> (Inl (raised f), st1)
        | None \<Rightarrow> (Inr (length (filter pending (users st))), st1))"

definition find_users :: "world \<Rightarrow> state \<Rightarrow> (py_exn + user list) \<times> state" where
  "find_users w st =
    (let st1 = external (emit Find_Query st)
     in case find_fault w (tick st) of
          Some f \<Rightarrow> (Inl (raised f), st1)
        | None \<Rightarrow> (Inr (filter pending (users st)), st1))"

text \<open>\<open>update_one({'_id': i}, {'$set': {'welcome_email_sent': True}})\<close>: the first match.\<close>

fun set_sent :: "nat \<Rightarrow> user list \<Rightarrow> user list" where
  "set_sent i [] = []"
| "set_sent i (u # us) =
    (if uid u = i then u\<lparr>welcome_email_sent := Some True\<rparr> # us else u # set_sent i us)"

definition update_one :: "world \<Rightarrow> nat \<Rightarrow> state \<Rightarrow> (py_exn + unit) \<times> state" where
  "update_one w i st =
    (let st1 = external (emit (Update_One i) st)
     in case update_one_fault w (tick st) of
          Some f \<Rightarrow> (Inl (raised f), st1)
        | None \<Rightarrow> (Inr (), st1\<lparr>users := set_sent i (users st1)\<rparr>))"

subsection \<open>The batch processor (lines 96-137)\<close>

text \<open>The body of \<open>for user in users_to_email\<close> (lines 117-137).\<close>

definition skip_user :: "user \<Rightarrow> state \<Rightarrow> (py_exn + unit) \<times> state" where
  "skip_user u st =
    (Inr (), logging WARNING
       (No_Email_Skipping (case userId u of None \<Rightarrow> ''N/A'' | Some i \<Rightarrow> i)) st)"

definition loop_body :: "world \<Rightarrow> config \<Rightarrow> user \<Rightarrow> state \<Rightarrow> (py_exn + unit) \<times> state" where
  "loop_body w cfg u st =
    (let first_name = (case firstName u of None \<Rightarrow> ''User'' | Some n \<Rightarrow> n)
     in case email u of
          None \<Rightarrow> skip_user u st
        | Some addr \<Rightarrow>
            if addr = [] then skip_user u st
            else (case send_welcome_email w cfg addr first_name st of
                    (Inl e, st1) \<Rightarrow> (Inl e, st1)
                  | (Inr success, st1) \<Rightarrow>
                      if success then
                        (case update_one w (uid u) st1 of
                           (Inr _, st2) \<Rightarrow> (Inr (), logging INFO (Marked_Emailed addr) st2)
                         | (Inl x, st2) \<Rightarrow>
                             if is_Exception x
                             then (Inr (), logging ERROR (Update_Failed addr x) st2)
                             else (Inl x, st2))
                      else (Inr (), logging ERROR (Will_Retry addr) st1)))"

text \<open>
  The \<open>for\<close> loop over the cursor.  Each step first asks the cursor for the next
  document, which is a call to the server that can fail; that failure is outside the
  \<open>try\<close> of lines 102-114.
\<close>

fun for_users :: "world \<Rightarrow> config \<Rightarrow> user list \<Rightarrow> state \<Rightarrow> (py_exn + unit) \<times> state" where
  "for_users w cfg [] st =
    (case cursor_fault w (tick st) of
       Some f \<Rightarrow> (Inl (raised f), external st)
     | None \<Rightarrow> (Inr (), external st))"
| "for_users w cfg (u # us) st =
    (case cursor_fault w (tick st) of
       Some f \<Rightarrow> (Inl (raised f), external st)
     | None \<Rightarrow>
         (case loop_body w cfg u (external st) of
            (Inl e, st1) \<Rightarrow> (Inl e, st1)
          | (Inr _, st1) \<Rightarrow> for_users w cfg us st1))"

text \<open>Lines 112-114: \<open>except Exception as e: logging.error(...); sys.exit(1)\<close>.\<close>

definition query_error :: "py_exn \<Rightarrow> state \<Rightarrow> (py_exn + unit) \<times> state" where
  "query_error e st =
    (if is_Exception e then (Inl (SystemExit 1), logging ERROR (Error_Querying e) st)
     else (Inl e, st))"

definition process_users :: "world \<Rightarrow> config \<Rightarrow> state \<Rightarrow> (py_exn + unit) \<times> state" where
  "process_users w cfg st =
    (case count_documents w st of
       (Inl e, st1) \<Rightarrow> query_error e st1
     | (Inr count, st1) \<Rightarrow>
         if count = 0 then (Inr (), logging INFO No_New_Users st1)
         else (case find_users w (logging INFO (Found_Users count) st1) of
                 (Inl e, st2) \<Rightarrow> query_error e st2
               | (Inr users_to_email, st2) \<Rightarrow> for_users w cfg users_to_email st2))"

subsection \<open>Entry point (lines 33-46, 140-182)\<close>

text \<open>
  \<open>time.sleep(args.interval)\<close> for an integer (CPython 3.11 on Linux).  The length is
  first converted to nanoseconds in a signed 64-bit integer, with \<open>OverflowError\<close> when
  it does not fit; a negative length raises \<open>ValueError\<close>; the deadline is the
  monotonic clock plus the length, and a deadline beyond the 64-bit range is refused by
  the system (\<open>OSError\<close>).  Otherwise the process sleeps, unless the world interrupts
  or fails the call.
\<close>

definition PYTIME_MAX :: int where
  "PYTIME_MAX = 9223372036854775807"

definition sleep :: "world \<Rightarrow> int \<Rightarrow> state \<Rightarrow> (py_exn + unit) \<times> state" where
  "sleep w secs st =
    (if PYTIME_MAX < secs * 1000000000 \<or> secs * 1000000000 < - PYTIME_MAX - 1
     then (Inl (Exception OverflowError), st)
     else if secs < 0 then (Inl (Exception ValueError), st)
     else if PYTIME_MAX < monotonic_ns w (tick st) + secs * 1000000000
     then (Inl (Exception OSError), st)
     else (let st1 = external (emit (Sleep secs) st)
           in case sleep_fault w (tick st) of
                Some f \<Rightarrow> (Inl (raised f), st1)
              | None \<Rightarrow> (Inr (), st1)))"

text \<open>
  \<open>while True\<close> (lines 170-173) has no exit of its own.  The loop is run for at most
  \<open>fuel\<close> cycles: \<open>Some e\<close> is the exception that left it, \<open>None\<close> says that it is
  still running after \<open>fuel\<close> cycles.
\<close>

fun while_true :: "world \<Rightarrow> config \<Rightarrow> int \<Rightarrow> nat \<Rightarrow> state \<Rightarrow> py_exn option \<times> state" where
  "while_true w cfg secs 0 st = (None, st)"
| "while_true w cfg secs (Suc fuel) st =
    (case process_users w cfg st of
       (Inl e, st1) \<Rightarrow> (Some e, st1)
     | (Inr _, st1) \<Rightarrow>
         (case sleep w secs (logging INFO (Sleeping secs) st1) of
            (Inl e, st2) \<Rightarrow> (Some e, st2)
          | (Inr _, st2) \<Rightarrow> while_true w cfg secs fuel st2))"

text \<open>Lines 155-165: the client and the database handle, inside \<open>try\<close>.\<close>

definition connect :: "world \<Rightarrow> config \<Rightarrow> state \<Rightarrow> (py_exn + unit) \<times> state" where
  "connect w cfg st =
    (let st1 = external (emit Mongo_Client st);
         r = (case mongo_client w of
                Some f \<Rightarrow> Some f
              | None \<Rightarrow>
                  (case MONGODB_DATABASE cfg of
                     None \<Rightarrow> default_database w
                   | Some name \<Rightarrow>
                       if name = [] then default_database w else named_database w name))
     in case r of
          None \<Rightarrow> (Inr (), logging INFO Connected st1)
        | Some f \<Rightarrow>
            if is_Exception (raised f)
            then (Inl (SystemExit 1), logging ERROR (Connect_Failed (raised f)) st1)
            else (Inl (raised f), st1))"

text \<open>
  \<open>main\<close>, from the parsed arguments on (\<open>parse_args\<close> itself ends the process on a
  usage error or on \<open>--help\<close>).  \<open>None\<close>: the service loop is still running.
\<close>

definition main ::
  "world \<Rightarrow> config \<Rightarrow> args \<Rightarrow> nat \<Rightarrow> state \<Rightarrow> (py_exn + unit) option \<times> state"
where
  "main w cfg a fuel st =
    (if test a then
       (case test_email a of
          None \<Rightarrow> (Some (Inl (SystemExit 1)), logging ERROR Need_Test_Email st)
        | Some addr \<Rightarrow>
            if addr = [] then (Some (Inl (SystemExit 1)), logging ERROR Need_Test_Email st)
            else (case send_test_email w cfg addr st of (r, st1) \<Rightarrow> (Some r, st1)))
     else
       (case connect w cfg st of
          (Inl e, st1) \<Rightarrow> (Some (Inl e), st1)
        | (Inr _, st1) \<Rightarrow>
            (case while_true w cfg (interval a) fuel (logging INFO (Starting (interval a)) st1) of
               (None, st2) \<Rightarrow> (None, st2)
             | (Some KeyboardInterrupt, st2) \<Rightarrow>
                 (Some (Inl (SystemExit 0)), logging INFO Interrupted st2)
             | (Some (Exception x), st2) \<Rightarrow>
                 (Some (Inl (SystemExit 1)), logging ERROR (Unexpected (Exception x)) st2)
             | (Some (SystemExit n), st2) \<Rightarrow> (Some (Inl (SystemExit n)), st2))))"

text \<open>
  How the process ends: with an exit status, by an exception that nothing caught
  (the interpreter then ends with a status that is not 0), or not yet.
\<close>

datatype outcome = Exited nat | Uncaught py_exn | Running

fun finish :: "py_exn + unit \<Rightarrow> outcome" where
  "finish (Inr u) = Exited 0"
| "finish (Inl (SystemExit n)) = Exited n"
| "finish (Inl KeyboardInterrupt) = Uncaught KeyboardInterrupt"
| "finish (Inl (Exception x)) = Uncaught (Exception x)"

text \<open>Lines 33-46, run when the module is loaded; \<open>getenv\<close> is \<open>os.getenv\<close>.\<close>

definition read_config :: "(string \<Rightarrow> string option) \<Rightarrow> config" where
  "read_config getenv =
    \<lparr>MONGODB_URI = getenv ''MONGODB_URI'',
     MONGODB_DATABASE = getenv ''MONGODB_DATABASE'',
     GMAIL_USER = getenv ''GMAIL_USER'',
     GMAIL_APP_PASSWORD = getenv ''GMAIL_APP_PASSWORD'',
     FROM_NAME = (case getenv ''FROM_NAME'' of None \<Rightarrow> ''Your App'' | Some n \<Rightarrow> n)\<rparr>"

definition module_init ::
  "(string \<Rightarrow> string option) \<Rightarrow> state \<Rightarrow> (py_exn + config) \<times> state"
where
  "module_init getenv st =
    (let cfg = read_config getenv
     in if falsy (MONGODB_URI cfg)
        then (Inl (SystemExit 1), logging ERROR Mongodb_Uri_Not_Set st)
        else if falsy (GMAIL_USER cfg) \<or> falsy (GMAIL_APP_PASSWORD cfg)
        then (Inl (SystemExit 1), logging ERROR Gmail_Not_Set st)
        else (Inr cfg, st))"

definition program ::
  "world \<Rightarrow> (string \<Rightarrow> string option) \<Rightarrow> args \<Rightarrow> nat \<Rightarrow> state \<Rightarrow> outcome \<times> state"
where
  "program w getenv a fuel st =
    (case module_init getenv st of
       (Inl e, st1) \<Rightarrow> (finish (Inl e), st1)
     | (Inr cfg, st1) \<Rightarrow>
         (case main w cfg a fuel st1 of
            (None, st2) \<Rightarrow> (Running, st2)
          | (Some r, st2) \<Rightarrow> (finish r, st2)))"

subsection \<open>Vocabulary of the properties\<close>

text \<open>Classes of events.\<close>

fun is_send_call :: "event \<Rightarrow> bool" where
  "is_send_call (Send_Call to_email first_name) = True"
| "is_send_call ev = False"

fun is_smtp_session :: "event \<Rightarrow> bool" where
  "is_smtp_session (Smtp_Session sender to_email html) = True"
| "is_smtp_session ev = False"

fun is_store_call :: "event \<Rightarrow> bool" where
  "is_store_call Mongo_Client = True"
| "is_store_call Count_Documents = True"
| "is_store_call Find_Query = True"
| "is_store_call (Update_One i) = True"
| "is_store_call ev = False"

text \<open>
  A template seen as a sequence of pieces: literal text without braces, and the two
  named placeholders.  \<open>written\<close> is the text of the file, \<open>filled\<close> what is expected
  in the place of each piece.
\<close>

datatype piece = Text string | Placeholder string

fun written :: "piece \<Rightarrow> string" where
  "written (Text s) = s"
| "written (Placeholder n) = ''{'' @ n @ ''}''"

fun filled :: "string \<Rightarrow> string \<Rightarrow> piece \<Rightarrow> string" where
  "filled first_name year (Text s) = s"
| "filled first_name year (Placeholder n) = (if n = ''first_name'' then first_name else year)"

definition brace_free :: "string \<Rightarrow> bool" where
  "brace_free s = (CHR ''{'' \<notin> set s \<and> CHR ''}'' \<notin> set s)"

fun well_formed :: "piece \<Rightarrow> bool" where
  "well_formed (Text s) = brace_free s"
| "well_formed (Placeholder n) = (n = ''first_name'' \<or> n = ''year'')"

text \<open>
  The only change a document may undergo: none, or its flag set to \<open>True\<close>.  A
  collection may change only document by document in this way.
\<close>

definition raised_only :: "user \<Rightarrow> user \<Rightarrow> bool" where
  "raised_only d d' = (d' = d \<or> d' = d\<lparr>welcome_email_sent := Some True\<rparr>)"

definition flags_raised :: "user list \<Rightarrow> user list \<Rightarrow> bool" where
  "flags_raised s s' = list_all2 raised_only s s'"

text \<open>
  What a poll cycle over the collection \<open>s\<close> may do: log, query, sleep, and send to or
  mark a document of \<open>s\<close> that has an email address.
\<close>

fun cycle_event :: "user list \<Rightarrow> event \<Rightarrow> bool" where
  "cycle_event s (Logged l m) = True"
| "cycle_event s (Send_Call to_email first_name) =
     (to_email \<noteq> [] \<and> list_ex (\<lambda>v. email v = Some to_email) s)"
| "cycle_event s (Smtp_Session sender to_email html) =
     (to_email \<noteq> [] \<and> list_ex (\<lambda>v. email v = Some to_email) s)"
| "cycle_event s Mongo_Client = False"
| "cycle_event s Count_Documents = True"
| "cycle_event s Find_Query = True"
| "cycle_event s (Update_One i) = list_ex (\<lambda>v. uid v = i \<and> \<not> falsy (email v)) s"
| "cycle_event s (Sleep secs) = True"

text \<open>
  Line 118: the first name used for a document, and the call of \<open>send_welcome_email\<close>
  that one pass of the loop body makes for it (none without an email address).
\<close>

definition first_name_of :: "user \<Rightarrow> string" where
  "first_name_of u = (case firstName u of None \<Rightarrow> ''User'' | Some n \<Rightarrow> n)"

definition send_call_for :: "user \<Rightarrow> event list" where
  "send_call_for u =
    (case email u of
       None \<Rightarrow> []
     | Some addr \<Rightarrow> if addr = [] then [] else [Send_Call addr (first_name_of u)])"

subsection \<open>Concrete inputs\<close>

definition demo_pieces :: "piece list" where
  "demo_pieces =
    [Text ''<p>Hello '', Placeholder ''first_name'', Text ''</p><p>(c) '',
     Placeholder ''year'', Text '' WildVision</p>'']"

definition demo_template :: string where
  "demo_template = ''<p>Hello {first_name}</p><p>(c) {year} WildVision</p>''"

definition world_ok :: world where
  "world_ok =
    \<lparr>now_year = (\<lambda>t. 2024),
     template_file = (\<lambda>t. Inr demo_template),
     format_ext = (\<lambda>s n y. Inl ValueError),
     smtp_session = (\<lambda>t. None),
     mongo_client = None,
     default_database = None,
     named_database = (\<lambda>name. None),
     monotonic_ns = (\<lambda>t. 5000000000),
     count_documents_fault = (\<lambda>t. None),
     find_fault = (\<lambda>t. None),
     cursor_fault = (\<lambda>t. None),
     update_one_fault = (\<lambda>t. None),
     sleep_fault = (\<lambda>t. None)\<rparr>"

definition world_smtp_down :: world where
  "world_smtp_down = world_ok\<lparr>smtp_session := (\<lambda>t. Some (Fails SMTPException))\<rparr>"

definition world_no_template :: world where
  "world_no_template = world_ok\<lparr>template_file := (\<lambda>t. Inl (Fails FileNotFoundError))\<rparr>"

definition world_update_down :: world where
  "world_update_down = world_ok\<lparr>update_one_fault := (\<lambda>t. Some (Fails PyMongoError))\<rparr>"

text \<open>The second cycle's \<open>count_documents\<close> is the external call number 10 of the run below.\<close>

definition world_query_fails :: world where
  "world_query_fails =
    world_ok\<lparr>count_documents_fault := (\<lambda>t. if t = 10 then Some (Fails PyMongoError) else None)\<rparr>"


definition env_ok :: "string \<Rightarrow> string option" where
  "env_ok =
    [''MONGODB_URI'' \<mapsto> ''mongodb://localhost/app'',
     ''GMAIL_USER'' \<mapsto> ''bot@gmail.com'',
     ''GMAIL_APP_PASSWORD'' \<mapsto> ''secret'']"

definition env_no_password :: "string \<Rightarrow> string option" where
  "env_no_password =
    [''MONGODB_URI'' \<mapsto> ''mongodb://localhost/app'',
     ''GMAIL_USER'' \<mapsto> ''bot@gmail.com'']"

definition test_args :: args where
  "test_args = \<lparr>test = True, test_email = Some ''a@example.com'', interval = 60\<rparr>"

definition service_args :: args where
  "service_args = \<lparr>test = False, test_email = None, interval = 60\<rparr>"

definition user_sent :: user where
  "user_sent =
    \<lparr>uid = 1, userId = Some ''u1'', email = Some ''old@example.com'',
     firstName = Some ''Old'', welcome_email_sent = Some True\<rparr>"

definition user_no_email :: user where
  "user_no_email =
    \<lparr>uid = 2, userId = None, email = None,
     firstName = Some ''Nomail'', welcome_email_sent = None\<rparr>"

definition user_ada :: user where
  "user_ada =
    \<lparr>uid = 3, userId = Some ''u3'', email = Some ''ada@example.com'',
     firstName = Some ''Ada'', welcome_email_sent = Some False\<rparr>"

definition st0 :: state where
  "st0 = \<lparr>users = [user_sent, user_no_email, user_ada], trace = [], tick = 0\<rparr>"

text \<open>The three required settings are present and not empty.\<close>

definition configured :: "(string \<Rightarrow> string option) \<Rightarrow> bool" where
  "configured getenv =
    (\<not> falsy (getenv ''MONGODB_URI'') \<and> \<not> falsy (getenv ''GMAIL_USER'')
     \<and> \<not> falsy (getenv ''GMAIL_APP_PASSWORD''))"

text \<open>
  The events a run has added to the log of \<open>st\<close>; a document changes only by an
  \<open>update_one\<close> on its \<open>_id\<close> that is among these events; a step of the batch
  processor over the collection \<open>s\<close> extends the log by events of a poll cycle and
  changes documents only in this way.
\<close>

definition new_events :: "state \<Rightarrow> state \<Rightarrow> event list" where
  "new_events st st' = drop (length (trace st)) (trace st')"

definition marked_by :: "event list \<Rightarrow> user \<Rightarrow> user \<Rightarrow> bool" where
  "marked_by evs d d' =
    (d' = d \<or> d' = d\<lparr>welcome_email_sent := Some True\<rparr> \<and> Update_One (uid d) \<in> set evs)"

definition cycle_step :: "user list \<Rightarrow> state \<Rightarrow> state \<Rightarrow> bool" where
  "cycle_step s st st' =
    (take (length (trace st)) (trace st') = trace st
     \<and> list_all (cycle_event s) (new_events st st')
     \<and> list_all2 (marked_by (new_events st st')) (users st) (users st'))"

text \<open>
  A step that extends the log without the error line of \<open>load_email_template\<close>
  (line 56); and a step that, if it logs that line, ends by \<open>SystemExit(1)\<close>.
\<close>

definition quiet :: "state \<Rightarrow> state \<Rightarrow> bool" where
  "quiet st st' =
    (take (length (trace st)) (trace st') = trace st
     \<and> Logged ERROR Template_Not_Found \<notin> set (new_events st st'))"

definition exits_if_logged :: "state \<Rightarrow> (py_exn + 'a) \<times> state \<Rightarrow> bool" where
  "exits_if_logged st res =
    (take (length (trace st)) (trace (snd res)) = trace st
     \<and> (Logged ERROR Template_Not_Found \<in> set (new_events st (snd res))
          \<longrightarrow> fst res = Inl (SystemExit 1)))"

section \<open>Properties\<close>

subsection \<open>State bookkeeping\<close>

lemma emit_simps [simp]:
  "users (emit ev st) = users st"
  "tick (emit ev st) = tick st"
  "trace (emit ev st) = trace st @ [ev]"
  by (simp_all add: emit_def)

lemma logging_simps [simp]:
  "users (logging l m st) = users st"
  "tick (logging l m st) = tick st"
  "trace (logging l m st) = trace st @ [Logged l m]"
  by (simp_all add: logging_def)

lemma external_simps [simp]:
  "users (external st) = users st"
  "tick (external st) = Suc (tick st)"
  "trace (external st) = trace st"
  by (simp_all add: external_def)

subsection \<open>Rendering\<close>

lemma str_nat_2024: "str_nat 2024 = ''2024''"
  by code_simp

lemma format_text:
  "brace_free s \<Longrightarrow> py_format ext (s @ rest) fn yr = prepend s (py_format ext rest fn yr)"
proof (induction s)
  case Nil
  show ?case by (cases "py_format ext rest fn yr") simp_all
next
  case (Cons c s)
  from Cons.prems have c: "c \<noteq> CHR ''{''" "c \<noteq> CHR ''}''" and s: "brace_free s"
    by (auto simp: brace_free_def)
  with Cons.IH
  have "py_format ext (c # s @ rest) fn yr = prepend [c] (prepend s (py_format ext rest fn yr))"
    by simp
  then show ?case by (cases "py_format ext rest fn yr") simp_all
qed

lemma format_first_name:
  "py_format ext (''{first_name}'' @ rest) fn yr = prepend fn (py_format ext rest fn yr)"
  by (simp add: structured_char_def lookup_field_def is_digit_def)

lemma format_year:
  "py_format ext (''{year}'' @ rest) fn yr = prepend (str_nat yr) (py_format ext rest fn yr)"
  by (simp add: structured_char_def lookup_field_def is_digit_def del: str_nat.simps)

lemma format_piece:
  "well_formed p \<Longrightarrow>
   py_format ext (written p @ rest) fn yr
     = prepend (filled fn (str_nat yr) p) (py_format ext rest fn yr)"
  using format_first_name [of ext rest fn yr] format_year [of ext rest fn yr]
  by (cases p) (auto simp: format_text simp del: py_format.simps str_nat.simps)

lemma format_pieces:
  "list_all well_formed ps \<Longrightarrow>
   py_format ext (concat (map written ps)) fn yr
     = Inr (concat (map (filled fn (str_nat yr)) ps))"
  by (induction ps) (simp_all add: format_piece del: py_format.simps(2) str_nat.simps)



lemma demo_pieces_well_formed: "list_all well_formed demo_pieces"
  by (simp add: demo_pieces_def brace_free_def)

lemma demo_template_written: "concat (map written demo_pieces) = demo_template"
  by (simp add: demo_pieces_def demo_template_def)



subsection \<open>Configuration\<close>

text \<open>
  C10.  In every mode (any arguments, any world, any number of cycles): if
  \<open>MONGODB_URI\<close>, \<open>GMAIL_USER\<close> or \<open>GMAIL_APP_PASSWORD\<close> is unset or empty, the process
  exits with status 1, and all it has done is to log one error: no external call was
  made and the collection is untouched.
\<close>

theorem config_required:
  assumes "falsy (getenv ''MONGODB_URI'') \<or> falsy (getenv ''GMAIL_USER'')
           \<or> falsy (getenv ''GMAIL_APP_PASSWORD'')"
  shows "program w getenv a fuel st =
           (Exited 1,
            logging ERROR
              (if falsy (getenv ''MONGODB_URI'') then Mongodb_Uri_Not_Set else Gmail_Not_Set) st)"
  using assms by (auto simp: program_def module_init_def read_config_def Let_def)

theorem config_required_witness:
  "falsy (env_no_password ''GMAIL_APP_PASSWORD'')
   \<and> program world_ok env_no_password test_args 3 st0
       = (Exited 1, logging ERROR Gmail_Not_Set st0)"
  using config_required [of env_no_password world_ok test_args 3 st0]
  by (simp add: env_no_password_def falsy_def)

lemma module_init_configured:
  "configured getenv \<Longrightarrow> module_init getenv st = (Inr (read_config getenv), st)"
  by (simp add: configured_def module_init_def read_config_def)

lemma module_init_not_configured:
  "\<not> configured getenv \<Longrightarrow> fst (module_init getenv st) = Inl (SystemExit 1)"
  by (auto simp: configured_def module_init_def read_config_def Let_def)

subsection \<open>Mail dispatch\<close>

lemma send_welcome_email_users [simp]:
  "users (snd (send_welcome_email w cfg to_email first_name st)) = users st"
  by (simp add: send_welcome_email_def load_email_template_def Let_def
           split: sum.splits option.splits)

lemma demo_render:
  "py_format ext demo_template fn yr
     = Inr (concat (map (filled fn (str_nat yr)) demo_pieces))"
  using format_pieces [OF demo_pieces_well_formed] by (simp add: demo_template_written)

lemma build_message_html: "build_message cfg to_email h = Inr m \<Longrightarrow> msg_html m = h"
  by (auto simp: build_message_def split: if_splits option.splits)

lemma build_message_env_ok:
  "build_message (read_config env_ok) to_email h =
     Inr \<lparr>msg_from_name = ''Your App'', msg_from = ''bot@gmail.com'',
          msg_subject = ''Welcome to WildVision!'', msg_to = to_email, msg_html = h\<rparr>"
proof -
  have "valid_utf8 ''Your App''" and "is_ascii ''bot@gmail.com''"
    by code_simp+
  then show ?thesis
    by (simp add: build_message_def read_config_def env_ok_def)
qed

text \<open>
  C2, as stated, fails: when the template file is missing, \<open>load_email_template\<close>
  (called at line 64, before the \<open>try\<close>) calls \<open>sys.exit(1)\<close>, and the
  \<open>SystemExit\<close> leaves \<open>send_welcome_email\<close> instead of a boolean.
\<close>

theorem missing_template_escapes:
  "fst (send_welcome_email world_no_template (read_config env_ok) ''ada@example.com'' ''Ada'' st0)
     = Inl (SystemExit 1)"
  by (simp add: send_welcome_email_def load_email_template_def world_no_template_def world_ok_def)

subsection \<open>Exit status\<close>

lemma raised_not_exit [simp]: "raised f \<noteq> SystemExit n"
  by (cases f) simp_all

lemma is_Exception_raised [simp]: "is_Exception (raised f) \<longleftrightarrow> f \<noteq> Interrupt"
  by (cases f) simp_all

lemma raised_Interrupt_iff [simp]: "raised f = KeyboardInterrupt \<longleftrightarrow> f = Interrupt"
  by (cases f) simp_all















lemma program_fst:
  "fst (program w getenv a fuel st) =
     (if configured getenv
      then (case fst (main w (read_config getenv) a fuel st) of
              None \<Rightarrow> Running | Some r \<Rightarrow> finish r)
      else Exited 1)"
proof (cases "configured getenv")
  case True
  then show ?thesis
    by (simp add: program_def module_init_configured split: prod.splits option.splits)
next
  case False
  then show ?thesis
    using module_init_not_configured [of getenv st]
    by (cases "module_init getenv st") (auto simp: program_def)
qed





subsection \<open>Test mode\<close>

lemma send_welcome_email_send_calls:
  "filter is_send_call (trace (snd (send_welcome_email w cfg to_email first_name st)))
     = filter is_send_call (trace st) @ [Send_Call to_email first_name]"
  by (simp add: send_welcome_email_def load_email_template_def Let_def
           split: sum.splits option.splits)

lemma send_welcome_email_store_calls:
  "filter is_store_call (trace (snd (send_welcome_email w cfg to_email first_name st)))
     = filter is_store_call (trace st)"
  by (simp add: send_welcome_email_def load_email_template_def Let_def
           split: sum.splits option.splits)

lemma send_welcome_email_smtp_sessions:
  "template_file w (tick st) = Inr tmpl \<Longrightarrow>
   py_format (format_ext w) tmpl first_name (now_year w (tick st)) = Inr html \<Longrightarrow>
   build_message cfg to_email html = Inr msg \<Longrightarrow>
   filter is_smtp_session (trace (snd (send_welcome_email w cfg to_email first_name st)))
     = filter is_smtp_session (trace st) @ [Smtp_Session (GMAIL_USER cfg) to_email html]"
  by (simp add: send_welcome_email_def load_email_template_def Let_def build_message_html
           split: sum.splits option.splits)

lemma program_test_snd:
  "configured getenv \<Longrightarrow> test a \<Longrightarrow> test_email a = Some addr \<Longrightarrow> addr \<noteq> [] \<Longrightarrow>
   snd (program w getenv a fuel st) = snd (send_test_email w (read_config getenv) addr st)"
  by (simp add: program_def module_init_configured main_def split: prod.splits option.splits)

lemma send_test_email_snd:
  "\<exists>l m. snd (send_test_email w cfg addr st)
     = logging l m (snd (send_welcome_email w cfg addr ''Test User'' (logging INFO (Sending_Test addr) st)))
   \<or> snd (send_test_email w cfg addr st)
     = snd (send_welcome_email w cfg addr ''Test User'' (logging INFO (Sending_Test addr) st))"
  by (auto simp: send_test_email_def split: prod.splits sum.splits)

text \<open>
  C7.  With a complete configuration, \<open>--test --test-email addr\<close> (\<open>addr\<close> not
  empty) makes exactly one call of \<open>send_welcome_email\<close>, with the address \<open>addr\<close> and
  the first name \<open>Test User\<close>; it makes no call on the user store (no client, no
  count, no find, no update) and leaves the collection as it is.  When the template is
  read and rendered and the message is built (lines 67-74), exactly one SMTP session is
  opened, for a message to \<open>addr\<close> whose body is the template rendered with
  \<open>Test User\<close>.
\<close>

theorem test_mode_one_send:
  assumes "configured getenv" and "test a" and "test_email a = Some addr" and "addr \<noteq> []"
  shows "filter is_send_call (trace (snd (program w getenv a fuel st)))
           = filter is_send_call (trace st) @ [Send_Call addr ''Test User'']
       \<and> filter is_store_call (trace (snd (program w getenv a fuel st)))
           = filter is_store_call (trace st)
       \<and> users (snd (program w getenv a fuel st)) = users st
       \<and> (template_file w (tick st) = Inr tmpl \<and>
          py_format (format_ext w) tmpl ''Test User'' (now_year w (tick st)) = Inr html \<and>
          build_message (read_config getenv) addr html = Inr msg \<longrightarrow>
            filter is_smtp_session (trace (snd (program w getenv a fuel st)))
              = filter is_smtp_session (trace st) @ [Smtp_Session (getenv ''GMAIL_USER'') addr html])"
proof -
  let ?s = "snd (send_welcome_email w (read_config getenv) addr ''Test User''
                   (logging INFO (Sending_Test addr) st))"
  let ?p = "snd (program w getenv a fuel st)"
  have p: "(\<exists>l m. ?p = logging l m ?s) \<or> ?p = ?s"
    using send_test_email_snd [of w "read_config getenv" addr st]
    by (simp add: program_test_snd [OF assms])
  have 1: "filter is_send_call (trace ?s) = filter is_send_call (trace st) @ [Send_Call addr ''Test User'']"
    by (simp add: send_welcome_email_send_calls)
  have 2: "filter is_store_call (trace ?s) = filter is_store_call (trace st)"
    by (simp add: send_welcome_email_store_calls)
  have 3: "users ?s = users st"
    by simp
  have 4: "filter is_smtp_session (trace ?s)
             = filter is_smtp_session (trace st) @ [Smtp_Session (getenv ''GMAIL_USER'') addr html]"
    if "template_file w (tick st) = Inr tmpl"
      and "py_format (format_ext w) tmpl ''Test User'' (now_year w (tick st)) = Inr html"
      and "build_message (read_config getenv) addr html = Inr msg"
    using that send_welcome_email_smtp_sessions [of w "logging INFO (Sending_Test addr) st" tmpl
        "''Test User''" html "read_config getenv" addr msg]
    by (simp add: read_config_def)
  from p 1 2 3 4 show ?thesis
    by auto
qed

theorem test_mode_one_send_witness:
  "configured env_ok \<and> test test_args \<and> test_email test_args = Some ''a@example.com''
   \<and> filter is_send_call (trace (snd (program world_ok env_ok test_args 0 st0)))
       = [Send_Call ''a@example.com'' ''Test User'']
   \<and> filter is_store_call (trace (snd (program world_ok env_ok test_args 0 st0))) = []
   \<and> users (snd (program world_ok env_ok test_args 0 st0)) = users st0
   \<and> build_message (read_config env_ok) ''a@example.com''
         ''<p>Hello Test User</p><p>(c) 2024 WildVision</p>''
       = Inr \<lparr>msg_from_name = ''Your App'', msg_from = ''bot@gmail.com'',
              msg_subject = ''Welcome to WildVision!'', msg_to = ''a@example.com'',
              msg_html = ''<p>Hello Test User</p><p>(c) 2024 WildVision</p>''\<rparr>
   \<and> filter is_smtp_session (trace (snd (program world_ok env_ok test_args 0 st0)))
       = [Smtp_Session (Some ''bot@gmail.com'') ''a@example.com''
            ''<p>Hello Test User</p><p>(c) 2024 WildVision</p>'']"
proof -
  let ?h = "''<p>Hello Test User</p><p>(c) 2024 WildVision</p>''"
  let ?m = "\<lparr>msg_from_name = ''Your App'', msg_from = ''bot@gmail.com'',
             msg_subject = ''Welcome to WildVision!'', msg_to = ''a@example.com'',
             msg_html = ?h\<rparr>"
  have b: "build_message (read_config env_ok) ''a@example.com'' ?h = Inr ?m"
    by (rule build_message_env_ok)
  have c: "configured env_ok"
    by code_simp
  have t: "test test_args" "test_email test_args = Some ''a@example.com''"
    by (simp_all add: test_args_def)
  have n: "''a@example.com'' \<noteq> []"
    by simp
  have f: "template_file world_ok (tick st0) = Inr demo_template"
    by (simp add: world_ok_def)
  have r: "py_format (format_ext world_ok) demo_template ''Test User'' (now_year world_ok (tick st0))
             = Inr ''<p>Hello Test User</p><p>(c) 2024 WildVision</p>''"
    by (simp add: demo_render world_ok_def str_nat_2024 demo_pieces_def del: str_nat.simps)
  have e: "trace st0 = []" "env_ok ''GMAIL_USER'' = Some ''bot@gmail.com''"
    by (simp_all add: st0_def env_ok_def)
  show ?thesis
    using test_mode_one_send [OF c t n, of world_ok 0 st0 demo_template ?h ?m] c t f r e b
    by simp
qed

subsection \<open>Query errors\<close>

lemma while_true_add:
  "while_true w cfg secs (n + m) st =
     (case while_true w cfg secs n st of
        (None, st') \<Rightarrow> while_true w cfg secs m st'
      | (Some e, st') \<Rightarrow> (Some e, st'))"
  by (induction n arbitrary: st) (auto split: prod.splits sum.splits option.splits)

lemma process_users_count_fault:
  "count_documents_fault w (tick st) = Some (Fails x) \<Longrightarrow>
   process_users w cfg st =
     (Inl (SystemExit 1),
      logging ERROR (Error_Querying (Exception x)) (external (emit Count_Documents st)))"
  by (simp add: process_users_def count_documents_def query_error_def Let_def)

lemma process_users_find_fault:
  "count_documents_fault w (tick st) = None \<Longrightarrow> filter pending (users st) \<noteq> [] \<Longrightarrow>
   find_fault w (Suc (tick st)) = Some (Fails x) \<Longrightarrow>
   process_users w cfg st =
     (Inl (SystemExit 1),
      logging ERROR (Error_Querying (Exception x))
        (external (emit Find_Query
           (logging INFO (Found_Users (length (filter pending (users st))))
              (external (emit Count_Documents st))))))"
  by (simp add: process_users_def count_documents_def find_users_def query_error_def Let_def)

text \<open>
  C1, amended.  A query error is fatal in every poll cycle, not only at startup: in
  service mode, after the connection was acquired and \<open>n\<close> cycles have run, if
  \<open>count_documents\<close> raises an \<open>Exception\<close>, or \<open>find\<close> does after a count that is not
  zero, the error is logged and the process exits with status 1 (lines 112-114).  In
  that cycle nothing is sent and the collection is not changed.
\<close>

theorem query_error_is_fatal:
  assumes "configured getenv" and "\<not> test a"
    and "connect w (read_config getenv) st = (Inr (), st1)"
    and "while_true w (read_config getenv) (interval a) n
           (logging INFO (Starting (interval a)) st1) = (None, st2)"
    and "count_documents_fault w (tick st2) = Some (Fails x) \<or>
         count_documents_fault w (tick st2) = None \<and> filter pending (users st2) \<noteq> [] \<and>
         find_fault w (Suc (tick st2)) = Some (Fails x)"
  shows "fst (program w getenv a (n + Suc k) st) = Exited 1
       \<and> last (trace (snd (program w getenv a (n + Suc k) st)))
           = Logged ERROR (Error_Querying (Exception x))
       \<and> users (snd (program w getenv a (n + Suc k) st)) = users st2
       \<and> filter is_send_call (trace (snd (program w getenv a (n + Suc k) st)))
           = filter is_send_call (trace st2)"
proof -
  obtain st3 where p: "process_users w (read_config getenv) st2 = (Inl (SystemExit 1), st3)"
    and l: "last (trace st3) = Logged ERROR (Error_Querying (Exception x))"
    and u: "users st3 = users st2"
    and f: "filter is_send_call (trace st3) = filter is_send_call (trace st2)"
    using assms(5) process_users_count_fault [of w st2 x "read_config getenv"]
      process_users_find_fault [of w st2 x "read_config getenv"]
    by auto
  have "while_true w (read_config getenv) (interval a) (Suc k) st2 = (Some (SystemExit 1), st3)"
    using p by simp
  with assms(4)
  have "while_true w (read_config getenv) (interval a) (n + Suc k)
          (logging INFO (Starting (interval a)) st1) = (Some (SystemExit 1), st3)"
    by (simp only: while_true_add prod.case option.case)
  then have "program w getenv a (n + Suc k) st = (Exited 1, st3)"
    using assms(1,2,3) by (simp add: program_def module_init_configured main_def)
  with l u f show ?thesis
    by simp
qed

theorem query_error_is_fatal_witness:
  "configured env_ok \<and> \<not> test service_args
   \<and> fst (connect world_query_fails (read_config env_ok) st0) = Inr ()
   \<and> fst (while_true world_query_fails (read_config env_ok) (interval service_args) 1
            (logging INFO (Starting (interval service_args))
               (snd (connect world_query_fails (read_config env_ok) st0)))) = None
   \<and> fst (program world_query_fails env_ok service_args (1 + Suc 1) st0) = Exited 1
   \<and> last (trace (snd (program world_query_fails env_ok service_args (1 + Suc 1) st0)))
       = Logged ERROR (Error_Querying (Exception PyMongoError))"
proof -
  let ?cfg = "read_config env_ok"
  let ?c = "connect world_query_fails ?cfg st0"
  let ?l = "while_true world_query_fails ?cfg (interval service_args) 1
             (logging INFO (Starting (interval service_args)) (snd ?c))"
  have c: "configured env_ok" "\<not> test service_args"
    by code_simp+
  have k: "fst ?c = Inr ()"
    by code_simp
  have l: "fst ?l = None"
    by code_simp
  have t: "count_documents_fault world_query_fails (tick (snd ?l)) = Some (Fails PyMongoError)"
    by code_simp
  have k': "?c = (Inr (), snd ?c)" and l': "?l = (None, snd ?l)"
    using k l by (simp_all add: prod_eq_iff)
  show ?thesis
    using query_error_is_fatal [OF c k' l', of PyMongoError 1] c k l t
    by simp
qed

text \<open>
  C1, as stated, fails: with the connection acquired and a first cycle completed, a
  failing \<open>count_documents\<close> in the second cycle ends the process with exit status 1.
\<close>

theorem query_error_exits:
  "fst (program world_query_fails env_ok service_args 3 st0) = Exited 1
   \<and> Logged INFO Connected \<in> set (trace (snd (program world_query_fails env_ok service_args 3 st0)))"
  by code_simp

subsection \<open>What a poll cycle does\<close>

lemma cycle_step_iff:
  "cycle_step s st st' \<longleftrightarrow>
     (\<exists>evs. trace st' = trace st @ evs \<and> list_all (cycle_event s) evs
            \<and> list_all2 (marked_by evs) (users st) (users st'))"
proof
  assume c: "cycle_step s st st'"
  then have "trace st' = trace st @ new_events st st'"
    unfolding cycle_step_def new_events_def
    by (metis append_take_drop_id)
  with c show "\<exists>evs. trace st' = trace st @ evs \<and> list_all (cycle_event s) evs
            \<and> list_all2 (marked_by evs) (users st) (users st')"
    unfolding cycle_step_def by blast
next
  assume "\<exists>evs. trace st' = trace st @ evs \<and> list_all (cycle_event s) evs
            \<and> list_all2 (marked_by evs) (users st) (users st')"
  then show "cycle_step s st st'"
    by (auto simp: cycle_step_def new_events_def)
qed

lemma cycle_stepI:
  "trace st' = trace st @ evs \<Longrightarrow> list_all (cycle_event s) evs \<Longrightarrow>
   list_all2 (marked_by evs) (users st) (users st') \<Longrightarrow> cycle_step s st st'"
  unfolding cycle_step_iff by blast

lemma marked_by_refl [simp]: "marked_by evs d d"
  by (simp add: marked_by_def)

lemma marked_by_mono: "marked_by evs d d' \<Longrightarrow> set evs \<subseteq> set evs' \<Longrightarrow> marked_by evs' d d'"
  by (auto simp: marked_by_def)

lemma marked_by_trans:
  "marked_by evs a b \<Longrightarrow> marked_by evs' b c \<Longrightarrow> marked_by (evs @ evs') a c"
  by (auto simp: marked_by_def)

lemma cycle_step_refl [simp]: "cycle_step s st st"
  by (rule cycle_stepI [where evs = "[]"]) (simp_all add: list_all2_refl)

lemma cycle_step_same_users:
  "trace st' = trace st @ evs \<Longrightarrow> list_all (cycle_event s) evs \<Longrightarrow> users st' = users st \<Longrightarrow>
   cycle_step s st st'"
  by (rule cycle_stepI [where evs = evs]) (simp_all add: list_all2_refl)

lemma cycle_step_trans:
  assumes "cycle_step s a b" and "cycle_step s b c"
  shows "cycle_step s a c"
proof -
  from assms(1) obtain e1 where 1: "trace b = trace a @ e1" "list_all (cycle_event s) e1"
    "list_all2 (marked_by e1) (users a) (users b)"
    unfolding cycle_step_iff by blast
  from assms(2) obtain e2 where 2: "trace c = trace b @ e2" "list_all (cycle_event s) e2"
    "list_all2 (marked_by e2) (users b) (users c)"
    unfolding cycle_step_iff by blast
  have "list_all2 (marked_by (e1 @ e2)) (users a) (users c)"
    using list_all2_trans [of "marked_by e1" "marked_by e2" "marked_by (e1 @ e2)"
        "users a" "users b" "users c"] marked_by_trans 1(3) 2(3)
    by blast
  with 1 2 show ?thesis
    by (intro cycle_stepI [where evs = "e1 @ e2"]) simp_all
qed

lemma cycle_step_logging [simp]: "cycle_step s st (logging l m st)"
  by (rule cycle_step_same_users [where evs = "[Logged l m]"]) simp_all

lemma cycle_step_external [simp]: "cycle_step s st (external st)"
  by (rule cycle_step_same_users [where evs = "[]"]) simp_all

lemma cycle_step_then_logging: "cycle_step s st st' \<Longrightarrow> cycle_step s st (logging l m st')"
  by (erule cycle_step_trans) simp

lemma cycle_step_then_external: "cycle_step s st st' \<Longrightarrow> cycle_step s st (external st')"
  by (erule cycle_step_trans) simp

lemma cycle_step_from_logging: "cycle_step s (logging l m st) st' \<Longrightarrow> cycle_step s st st'"
  by (rule cycle_step_trans [OF cycle_step_logging])

lemma cycle_step_from_external: "cycle_step s (external st) st' \<Longrightarrow> cycle_step s st st'"
  by (rule cycle_step_trans [OF cycle_step_external])

lemma cycle_step_send_welcome_email:
  assumes "to_email \<noteq> []" and "list_ex (\<lambda>v. email v = Some to_email) s"
  shows "cycle_step s st (snd (send_welcome_email w cfg to_email first_name st))"
proof -
  have "\<exists>evs. trace (snd (send_welcome_email w cfg to_email first_name st)) = trace st @ evs
          \<and> list_all (cycle_event s) evs"
    using assms
    by (simp add: send_welcome_email_def load_email_template_def Let_def
             split: sum.splits option.splits)
  then obtain evs where
    "trace (snd (send_welcome_email w cfg to_email first_name st)) = trace st @ evs"
    "list_all (cycle_event s) evs"
    by blast
  then show ?thesis
    by (rule cycle_step_same_users) simp
qed

lemma set_sent_marked_by: "list_all2 (marked_by [Update_One i]) us (set_sent i us)"
  by (induction us) (auto simp: marked_by_def list_all2_refl)

lemma cycle_step_update_one:
  assumes "list_ex (\<lambda>v. uid v = i \<and> \<not> falsy (email v)) s"
  shows "cycle_step s st (snd (update_one w i st))"
proof (cases "update_one_fault w (tick st)")
  case None
  then have "snd (update_one w i st)
      = (external (emit (Update_One i) st))\<lparr>users := set_sent i (users st)\<rparr>"
    by (simp add: update_one_def Let_def)
  then show ?thesis
    using assms set_sent_marked_by [of i "users st"]
    by (intro cycle_stepI [where evs = "[Update_One i]"]) simp_all
next
  case (Some f)
  then have "snd (update_one w i st) = external (emit (Update_One i) st)"
    by (simp add: update_one_def Let_def)
  then show ?thesis
    using assms
    by (intro cycle_step_same_users [where evs = "[Update_One i]"]) simp_all
qed


lemma loop_body_cases [case_names skip raised failed marked mark_failed mark_raised]:
  fixes w cfg u st
  defines "name \<equiv> (case firstName u of None \<Rightarrow> ''User'' | Some n \<Rightarrow> n)"
  obtains
    "falsy (email u)" and "loop_body w cfg u st = skip_user u st"
  | addr e s1 where "email u = Some addr" and "addr \<noteq> []"
      and "send_welcome_email w cfg addr name st = (Inl e, s1)"
      and "loop_body w cfg u st = (Inl e, s1)"
  | addr s1 where "email u = Some addr" and "addr \<noteq> []"
      and "send_welcome_email w cfg addr name st = (Inr False, s1)"
      and "loop_body w cfg u st = (Inr (), logging ERROR (Will_Retry addr) s1)"
  | addr s1 s2 where "email u = Some addr" and "addr \<noteq> []"
      and "send_welcome_email w cfg addr name st = (Inr True, s1)"
      and "update_one w (uid u) s1 = (Inr (), s2)"
      and "loop_body w cfg u st = (Inr (), logging INFO (Marked_Emailed addr) s2)"
  | addr s1 x s2 where "email u = Some addr" and "addr \<noteq> []"
      and "send_welcome_email w cfg addr name st = (Inr True, s1)"
      and "update_one w (uid u) s1 = (Inl x, s2)" and "is_Exception x"
      and "loop_body w cfg u st = (Inr (), logging ERROR (Update_Failed addr x) s2)"
  | addr s1 x s2 where "email u = Some addr" and "addr \<noteq> []"
      and "send_welcome_email w cfg addr name st = (Inr True, s1)"
      and "update_one w (uid u) s1 = (Inl x, s2)" and "\<not> is_Exception x"
      and "loop_body w cfg u st = (Inl x, s2)"
proof (cases "falsy (email u)")
  case True
  then have "loop_body w cfg u st = skip_user u st"
    by (auto simp: loop_body_def falsy_def)
  with True show ?thesis by (rule that(1))
next
  case False
  then obtain addr where a: "email u = Some addr" "addr \<noteq> []"
    by (auto simp: falsy_def)
  obtain r s1 where s: "send_welcome_email w cfg addr name st = (r, s1)"
    by (cases "send_welcome_email w cfg addr name st")
  show ?thesis
  proof (cases r)
    case (Inl e)
    with a s have "loop_body w cfg u st = (Inl e, s1)"
      by (simp add: loop_body_def name_def)
    with a s Inl show ?thesis by (intro that(2)) simp_all
  next
    case (Inr success)
    show ?thesis
    proof (cases success)
      case False
      with a s Inr have "loop_body w cfg u st = (Inr (), logging ERROR (Will_Retry addr) s1)"
        by (simp add: loop_body_def name_def)
      with a s Inr False show ?thesis by (intro that(3)) simp_all
    next
      case True
      obtain r2 s2 where m: "update_one w (uid u) s1 = (r2, s2)"
        by (cases "update_one w (uid u) s1")
      show ?thesis
      proof (cases r2)
        case (Inr v)
        with a s \<open>r = Inr success\<close> True m
        have "loop_body w cfg u st = (Inr (), logging INFO (Marked_Emailed addr) s2)"
          by (simp add: loop_body_def name_def)
        with a s \<open>r = Inr success\<close> True m Inr show ?thesis by (intro that(4)) simp_all
      next
        case (Inl x)
        show ?thesis
        proof (cases "is_Exception x")
          case True
          with a s \<open>r = Inr success\<close> \<open>success\<close> m Inl
          have "loop_body w cfg u st = (Inr (), logging ERROR (Update_Failed addr x) s2)"
            by (simp add: loop_body_def name_def)
          with a s \<open>r = Inr success\<close> \<open>success\<close> m Inl True show ?thesis
            by (intro that(5)) simp_all
        next
          case False
          with a s \<open>r = Inr success\<close> \<open>success\<close> m Inl
          have "loop_body w cfg u st = (Inl x, s2)"
            by (simp add: loop_body_def name_def)
          with a s \<open>r = Inr success\<close> \<open>success\<close> m Inl False show ?thesis
            by (intro that(6)) simp_all
        qed
      qed
    qed
  qed
qed

lemma cycle_step_skip_user [simp]: "cycle_step s st (snd (skip_user u st))"
  by (simp add: skip_user_def)

lemma cycle_step_loop_body:
  assumes "\<not> falsy (email u) \<Longrightarrow> list_ex (\<lambda>v. uid v = uid u \<and> email v = email u) s"
  shows "cycle_step s st (snd (loop_body w cfg u st))"
proof (cases rule: loop_body_cases [of u w cfg st])
  case skip
  then show ?thesis by simp
next
  case (raised addr e s1)
  then have "list_ex (\<lambda>v. email v = Some addr) s"
    using assms by (auto simp: falsy_def list_ex_iff)
  with raised show ?thesis
    using cycle_step_send_welcome_email [of addr s st w cfg] by (metis snd_conv)
next
  case (failed addr s1)
  then have "list_ex (\<lambda>v. email v = Some addr) s"
    using assms by (auto simp: falsy_def list_ex_iff)
  with failed have "cycle_step s st s1"
    using cycle_step_send_welcome_email [of addr s st w cfg] by (metis snd_conv)
  with failed show ?thesis by (simp add: cycle_step_then_logging)
next
  case (marked addr s1 s2)
  then have "list_ex (\<lambda>v. email v = Some addr) s"
    and u: "list_ex (\<lambda>v. uid v = uid u \<and> \<not> falsy (email v)) s"
    using assms by (auto simp: falsy_def list_ex_iff)
  with marked have "cycle_step s st s1"
    using cycle_step_send_welcome_email [of addr s st w cfg] by (metis snd_conv)
  moreover have "cycle_step s s1 s2"
    using cycle_step_update_one [OF u, of s1 w] marked by simp
  ultimately have "cycle_step s st s2" by (rule cycle_step_trans)
  with marked show ?thesis by (simp add: cycle_step_then_logging)
next
  case (mark_failed addr s1 x s2)
  then have "list_ex (\<lambda>v. email v = Some addr) s"
    and u: "list_ex (\<lambda>v. uid v = uid u \<and> \<not> falsy (email v)) s"
    using assms by (auto simp: falsy_def list_ex_iff)
  with mark_failed have "cycle_step s st s1"
    using cycle_step_send_welcome_email [of addr s st w cfg] by (metis snd_conv)
  moreover have "cycle_step s s1 s2"
    using cycle_step_update_one [OF u, of s1 w] mark_failed by simp
  ultimately have "cycle_step s st s2" by (rule cycle_step_trans)
  with mark_failed show ?thesis by (simp add: cycle_step_then_logging)
next
  case (mark_raised addr s1 x s2)
  then have "list_ex (\<lambda>v. email v = Some addr) s"
    and u: "list_ex (\<lambda>v. uid v = uid u \<and> \<not> falsy (email v)) s"
    using assms by (auto simp: falsy_def list_ex_iff)
  with mark_raised have "cycle_step s st s1"
    using cycle_step_send_welcome_email [of addr s st w cfg] by (metis snd_conv)
  moreover have "cycle_step s s1 s2"
    using cycle_step_update_one [OF u, of s1 w] mark_raised by simp
  ultimately have "cycle_step s st s2" by (rule cycle_step_trans)
  with mark_raised show ?thesis by simp
qed


lemma cycle_step_for_users:
  assumes "\<And>u. u \<in> set us \<Longrightarrow> \<not> falsy (email u) \<Longrightarrow>
             list_ex (\<lambda>v. uid v = uid u \<and> email v = email u) s"
  shows "cycle_step s st (snd (for_users w cfg us st))"
  using assms
proof (induction us arbitrary: st)
  case Nil
  show ?case by (simp split: option.splits)
next
  case (Cons u us)
  show ?case
  proof (cases "cursor_fault w (tick st)")
    case (Some f)
    then show ?thesis by simp
  next
    case None
    obtain r s1 where b: "loop_body w cfg u (external st) = (r, s1)"
      by (cases "loop_body w cfg u (external st)")
    have "cycle_step s (external st) s1"
      using cycle_step_loop_body [of u s "external st" w cfg] Cons.prems b by simp
    then have 1: "cycle_step s st s1"
      by (rule cycle_step_from_external)
    show ?thesis
    proof (cases r)
      case (Inl e)
      with None b 1 show ?thesis by simp
    next
      case (Inr v)
      have "cycle_step s s1 (snd (for_users w cfg us s1))"
        using Cons.IH [of s1] Cons.prems by simp
      with 1 have "cycle_step s st (snd (for_users w cfg us s1))"
        by (rule cycle_step_trans)
      with None b Inr show ?thesis by simp
    qed
  qed
qed

lemma cycle_step_query_error: "cycle_step s st (snd (query_error e st))"
  by (simp add: query_error_def)

lemma cycle_step_count_documents: "cycle_step s st (snd (count_documents w st))"
  by (rule cycle_step_same_users [where evs = "[Count_Documents]"])
     (simp_all add: count_documents_def Let_def split: option.splits)

lemma cycle_step_find_users: "cycle_step s st (snd (find_users w st))"
  by (rule cycle_step_same_users [where evs = "[Find_Query]"])
     (simp_all add: find_users_def Let_def split: option.splits)

lemma count_documents_users [simp]: "users (snd (count_documents w st)) = users st"
  by (simp add: count_documents_def Let_def split: option.splits)

lemma find_users_result:
  "find_users w st = (Inr us, s1) \<Longrightarrow> us = filter pending (users st) \<and> users s1 = users st"
  by (auto simp: find_users_def Let_def split: option.splits)

lemma cycle_step_process_users: "cycle_step (users st) st (snd (process_users w cfg st))"
proof -
  let ?s = "users st"
  obtain r s1 where c: "count_documents w st = (r, s1)"
    by (cases "count_documents w st")
  have 1: "cycle_step ?s st s1"
    using cycle_step_count_documents [of ?s st w] c by simp
  show ?thesis
  proof (cases r)
    case (Inl e)
    have "cycle_step ?s s1 (snd (query_error e s1))"
      by (rule cycle_step_query_error)
    with 1 have "cycle_step ?s st (snd (query_error e s1))"
      by (rule cycle_step_trans)
    with c Inl show ?thesis by (simp add: process_users_def)
  next
    case (Inr count)
    show ?thesis
    proof (cases "count = 0")
      case True
      with c Inr 1 show ?thesis
        by (simp add: process_users_def cycle_step_then_logging)
    next
      case False
      let ?s1 = "logging INFO (Found_Users count) s1"
      obtain r2 s2 where f: "find_users w ?s1 = (r2, s2)"
        by (cases "find_users w ?s1")
      have "cycle_step ?s ?s1 s2"
        using cycle_step_find_users [of ?s ?s1 w] f by simp
      with 1 have 2: "cycle_step ?s st s2"
        by (meson cycle_step_trans cycle_step_then_logging)
      show ?thesis
      proof (cases r2)
        case (Inl e)
        have "cycle_step ?s s2 (snd (query_error e s2))"
          by (rule cycle_step_query_error)
        with 2 have "cycle_step ?s st (snd (query_error e s2))"
          by (rule cycle_step_trans)
        with c Inr False f Inl show ?thesis by (simp add: process_users_def)
      next
        case (Inr us)
        have u1: "users s1 = users st"
          using c count_documents_users [of w st] by simp
        have us: "us = filter pending (users st)"
          using find_users_result [of w ?s1 us s2] f Inr u1 by simp
        have "cycle_step ?s s2 (snd (for_users w cfg us s2))"
          by (rule cycle_step_for_users) (auto simp: us list_ex_iff)
        with 2 have "cycle_step ?s st (snd (for_users w cfg us s2))"
          by (rule cycle_step_trans)
        with c \<open>r = Inr count\<close> False f Inr show ?thesis by (simp add: process_users_def)
      qed
    qed
  qed
qed

lemma sleep_snd_cases:
  "snd (sleep w secs st) = st \<or> snd (sleep w secs st) = external (emit (Sleep secs) st)"
  by (simp add: sleep_def Let_def split: option.splits)

lemma cycle_step_sleep: "cycle_step s st (snd (sleep w secs st))"
proof -
  have "cycle_step s st (external (emit (Sleep secs) st))"
    by (rule cycle_step_same_users [where evs = "[Sleep secs]"]) simp_all
  then show ?thesis
    using sleep_snd_cases [of w secs st] by auto
qed

lemma marked_by_uid_email: "marked_by evs d d' \<Longrightarrow> uid d' = uid d \<and> email d' = email d"
  by (auto simp: marked_by_def)

lemma marked_by_list_ex:
  "list_all2 (marked_by evs) s s' \<Longrightarrow>
   list_ex (\<lambda>v. Q (uid v) (email v)) s' = list_ex (\<lambda>v. Q (uid v) (email v)) s"
  by (induction rule: list_all2_induct) (auto dest: marked_by_uid_email)

lemma cycle_event_marked_by:
  assumes "list_all2 (marked_by evs) s s'"
  shows "cycle_event s' ev = cycle_event s ev"
proof (cases ev)
  case (Send_Call a n)
  then show ?thesis
    using marked_by_list_ex [OF assms, of "\<lambda>i e. e = Some a"] by simp
next
  case (Smtp_Session f a h)
  then show ?thesis
    using marked_by_list_ex [OF assms, of "\<lambda>i e. e = Some a"] by simp
next
  case (Update_One i)
  then show ?thesis
    using marked_by_list_ex [OF assms, of "\<lambda>j e. j = i \<and> \<not> falsy e"] by simp
qed simp_all

lemma cycle_step_users_cong:
  assumes "list_all2 (marked_by evs) s s'" and "cycle_step s' a b"
  shows "cycle_step s a b"
proof -
  have "cycle_event s' = cycle_event s"
    using cycle_event_marked_by [OF assms(1)] by (rule ext)
  with assms(2) show ?thesis
    by (simp add: cycle_step_def)
qed

lemma cycle_step_while_true: "cycle_step (users st) st (snd (while_true w cfg secs fuel st))"
proof (induction fuel arbitrary: st)
  case 0
  show ?case by simp
next
  case (Suc fuel)
  let ?s = "users st"
  obtain r s1 where p: "process_users w cfg st = (r, s1)"
    by (cases "process_users w cfg st")
  then have 1: "cycle_step ?s st s1"
    using cycle_step_process_users [of st w cfg] by simp
  show ?case
  proof (cases r)
    case (Inl e)
    with p 1 show ?thesis by simp
  next
    case (Inr u)
    let ?s1 = "logging INFO (Sleeping secs) s1"
    obtain r2 s2 where s: "sleep w secs ?s1 = (r2, s2)"
      by (cases "sleep w secs ?s1")
    have "cycle_step ?s ?s1 s2"
      using cycle_step_sleep [of ?s ?s1 w secs] s by simp
    with 1 have 2: "cycle_step ?s st s2"
      by (meson cycle_step_trans cycle_step_then_logging)
    show ?thesis
    proof (cases r2)
      case (Inl e)
      with p Inr s 2 show ?thesis by simp
    next
      case (Inr v)
      from 2 obtain evs where m: "list_all2 (marked_by evs) ?s (users s2)"
        unfolding cycle_step_iff by blast
      have "cycle_step (users s2) s2 (snd (while_true w cfg secs fuel s2))"
        by (rule Suc.IH)
      with m have "cycle_step ?s s2 (snd (while_true w cfg secs fuel s2))"
        by (rule cycle_step_users_cong)
      with 2 have "cycle_step ?s st (snd (while_true w cfg secs fuel s2))"
        by (rule cycle_step_trans)
      with p \<open>r = Inr u\<close> s Inr show ?thesis by simp
    qed
  qed
qed

subsection \<open>The flag\<close>

lemma marked_by_raised_only: "marked_by evs d d' \<Longrightarrow> raised_only d d'"
  by (auto simp: marked_by_def raised_only_def)

lemma cycle_step_flags: "cycle_step s st st' \<Longrightarrow> flags_raised (users st) (users st')"
  unfolding cycle_step_iff flags_raised_def
  by (auto elim: list_all2_mono dest: marked_by_raised_only)

lemma flags_raised_refl [simp]: "flags_raised s s"
  by (simp add: flags_raised_def raised_only_def list_all2_refl)

lemma while_true_flags: "flags_raised (users st) (users (snd (while_true w cfg secs fuel st)))"
  by (rule cycle_step_flags) (rule cycle_step_while_true)

lemma flags_raised_keeps_sent:
  "flags_raised s s' \<Longrightarrow>
   (\<forall>d\<in>set s. uid d = i \<longrightarrow> welcome_email_sent d = Some True) \<Longrightarrow>
   (\<forall>d\<in>set s'. uid d = i \<longrightarrow> welcome_email_sent d = Some True)"
  unfolding flags_raised_def
  by (induction rule: list_all2_induct) (auto simp: raised_only_def)

lemma send_test_email_users [simp]: "users (snd (send_test_email w cfg addr st)) = users st"
  by (simp add: send_test_email_def case_prod_beta split: sum.splits)

lemma connect_users [simp]: "users (snd (connect w cfg st)) = users st"
  by (simp add: connect_def Let_def split: option.splits)

lemma main_test_users:
  "test a \<Longrightarrow> users (snd (main w cfg a fuel st)) = users st"
  by (simp add: main_def case_prod_beta split: option.splits)

lemma main_service_snd:
  "\<not> test a \<Longrightarrow>
   snd (main w cfg a fuel st) =
     (case fst (connect w cfg st) of
        Inl e \<Rightarrow> snd (connect w cfg st)
      | Inr u \<Rightarrow>
          (case while_true w cfg (interval a) fuel
                  (logging INFO (Starting (interval a)) (snd (connect w cfg st))) of
             (None, s2) \<Rightarrow> s2
           | (Some KeyboardInterrupt, s2) \<Rightarrow> logging INFO Interrupted s2
           | (Some (Exception x), s2) \<Rightarrow> logging ERROR (Unexpected (Exception x)) s2
           | (Some (SystemExit n), s2) \<Rightarrow> s2))"
  by (simp add: main_def split: option.splits prod.splits sum.splits py_exn.splits)

lemma main_flags: "flags_raised (users st) (users (snd (main w cfg a fuel st)))"
proof (cases "test a")
  case True
  then show ?thesis by (simp add: main_test_users)
next
  case False
  let ?s1 = "logging INFO (Starting (interval a)) (snd (connect w cfg st))"
  have "flags_raised (users ?s1) (users (snd (while_true w cfg (interval a) fuel ?s1)))"
    by (rule while_true_flags)
  then have "flags_raised (users st) (users (snd (while_true w cfg (interval a) fuel ?s1)))"
    by simp
  with False show ?thesis
    by (simp add: main_service_snd case_prod_beta split: sum.splits option.splits py_exn.splits)
qed

lemma program_snd:
  "snd (program w getenv a fuel st) =
     (if configured getenv then snd (main w (read_config getenv) a fuel st)
      else snd (module_init getenv st))"
proof (cases "configured getenv")
  case True
  then show ?thesis
    by (simp add: program_def module_init_configured split: prod.splits option.splits)
next
  case False
  then show ?thesis
    using module_init_not_configured [of getenv st]
    by (cases "module_init getenv st") (auto simp: program_def)
qed

lemma module_init_users [simp]: "users (snd (module_init getenv st)) = users st"
  by (simp add: module_init_def Let_def)

text \<open>
  C4.  Whatever the program does (any mode, any world, any number of cycles), the
  collection after the run has the same documents in the same order, and each document
  is either unchanged or differs only in its \<open>welcome_email_sent\<close> flag, which is then
  \<open>True\<close>: the flag is never set to \<open>False\<close> and never removed, and a flag that was
  \<open>True\<close> stays \<open>True\<close>.
\<close>

theorem flag_only_raised:
  "flags_raised (users st) (users (snd (program w getenv a fuel st)))"
  by (simp add: program_snd main_flags)

theorem flag_only_raised_witness:
  "flags_raised (users st0) (users (snd (program world_ok env_ok service_args 2 st0)))
   \<and> users st0 = [user_sent, user_no_email, user_ada]
   \<and> users (snd (program world_ok env_ok service_args 2 st0))
       = [user_sent, user_no_email, user_ada\<lparr>welcome_email_sent := Some True\<rparr>]"
proof -
  have "users (snd (program world_ok env_ok service_args 2 st0))
       = [user_sent, user_no_email, user_ada\<lparr>welcome_email_sent := Some True\<rparr>]"
    by code_simp
  then show ?thesis
    using flag_only_raised [of st0 world_ok env_ok service_args 2]
    by (simp add: st0_def)
qed

lemma set_sent_marks:
  "distinct (map uid s) \<Longrightarrow>
   \<forall>d\<in>set (set_sent i s). uid d = i \<longrightarrow> welcome_email_sent d = Some True"
proof (induction s)
  case Nil
  show ?case by simp
next
  case (Cons a s)
  show ?case
  proof (cases "uid a = i")
    case True
    from Cons.prems have "uid a \<notin> uid ` set s"
      by simp
    with True have "\<forall>d\<in>set s. uid d \<noteq> i"
      by blast
    with True show ?thesis by simp
  next
    case False
    with Cons show ?thesis by simp
  qed
qed

text \<open>
  C5.  In a collection with unique \<open>_id\<close>s, once \<open>update_one\<close> has marked the user
  \<open>i\<close>, the pending-user query does not select that user, neither at once (zero
  cycles) nor after any number of further poll cycles, in any world.
\<close>

theorem marked_user_not_selected:
  assumes "distinct (map uid (users st))" and "update_one w i st = (Inr (), st1)"
  shows "i \<notin> uid ` set (filter pending (users (snd (while_true w' cfg secs fuel st1))))
       \<and> (\<forall>us s2. find_users w'' (snd (while_true w' cfg secs fuel st1)) = (Inr us, s2)
            \<longrightarrow> i \<notin> uid ` set us)"
proof -
  let ?st' = "snd (while_true w' cfg secs fuel st1)"
  have "users st1 = set_sent i (users st)"
    using assms(2) by (auto simp: update_one_def Let_def split: option.splits)
  then have "\<forall>d\<in>set (users st1). uid d = i \<longrightarrow> welcome_email_sent d = Some True"
    using set_sent_marks [OF assms(1), of i] by simp
  then have "\<forall>d\<in>set (users ?st'). uid d = i \<longrightarrow> welcome_email_sent d = Some True"
    using flags_raised_keeps_sent [OF while_true_flags [of st1 w' cfg secs fuel], of i] by blast
  then have 1: "i \<notin> uid ` set (filter pending (users ?st'))"
    by (auto simp: pending_def)
  moreover have "i \<notin> uid ` set us" if "find_users w'' ?st' = (Inr us, s2)" for us s2
    using find_users_result [OF that] 1 by simp
  ultimately show ?thesis by blast
qed

theorem marked_user_not_selected_witness:
  "distinct (map uid (users st0))
   \<and> fst (update_one world_ok 3 st0) = Inr ()
   \<and> 3 \<notin> uid ` set (filter pending
                     (users (snd (while_true world_ok (read_config env_ok) 60 2
                                    (snd (update_one world_ok 3 st0))))))"
proof -
  have d: "distinct (map uid (users st0))"
    by code_simp
  have u: "fst (update_one world_ok 3 st0) = Inr ()"
    by code_simp
  then have u': "update_one world_ok 3 st0 = (Inr (), snd (update_one world_ok 3 st0))"
    by (simp add: prod_eq_iff)
  show ?thesis
    using marked_user_not_selected [OF d u', of world_ok "read_config env_ok" 60 2 world_ok] d u
    by simp
qed

subsection \<open>Users without an email address\<close>

lemma list_all2_member:
  "list_all2 P xs ys \<Longrightarrow> x \<in> set xs \<Longrightarrow> \<exists>y\<in>set ys. P x y"
  by (induction rule: list_all2_induct) auto

lemma distinct_uid_eq:
  "distinct (map uid s) \<Longrightarrow> v \<in> set s \<Longrightarrow> u \<in> set s \<Longrightarrow> uid v = uid u \<Longrightarrow> v = u"
  by (meson distinct_map inj_on_def)

lemma new_events_append: "trace st' = trace st @ evs \<Longrightarrow> new_events st st' = evs"
  by (simp add: new_events_def)

text \<open>
  C3.  Let \<open>u\<close> be a pending document without an email address (absent or empty), in
  a collection with unique \<open>_id\<close>s.  The loop body for \<open>u\<close>, in any state, only logs
  the warning and returns, so the loop goes on with the next candidate.  After any
  number of poll cycles, in any world: \<open>u\<close> is still in the collection, unchanged and
  pending; no \<open>update_one\<close> was made on its \<open>_id\<close>; and every call of
  \<open>send_welcome_email\<close> was made with the non-empty address of some document, so none
  was made for \<open>u\<close>.
\<close>

theorem no_email_never_sent_or_marked:
  assumes "distinct (map uid (users st))" and "u \<in> set (users st)"
    and "pending u" and "falsy (email u)"
  shows "loop_body w cfg u s
           = (Inr (), logging WARNING
                (No_Email_Skipping (case userId u of None \<Rightarrow> ''N/A'' | Some i \<Rightarrow> i)) s)
       \<and> u \<in> set (filter pending (users (snd (while_true w cfg secs fuel st))))
       \<and> Update_One (uid u) \<notin> set (new_events st (snd (while_true w cfg secs fuel st)))
       \<and> (\<forall>to_email first_name.
            Send_Call to_email first_name
              \<in> set (new_events st (snd (while_true w cfg secs fuel st)))
            \<longrightarrow> to_email \<noteq> [] \<and> (\<exists>v\<in>set (users st). email v = Some to_email))"
proof -
  let ?st' = "snd (while_true w cfg secs fuel st)"
  have body: "loop_body w cfg u s
           = (Inr (), logging WARNING
                (No_Email_Skipping (case userId u of None \<Rightarrow> ''N/A'' | Some i \<Rightarrow> i)) s)"
    using assms(4) by (auto simp: loop_body_def skip_user_def falsy_def)
  obtain evs where t: "trace ?st' = trace st @ evs"
    and e: "list_all (cycle_event (users st)) evs"
    and m: "list_all2 (marked_by evs) (users st) (users ?st')"
    using cycle_step_while_true [of st w cfg secs fuel] unfolding cycle_step_iff by blast
  have n: "new_events st ?st' = evs"
    using t by (rule new_events_append)
  have upd: "Update_One (uid u) \<notin> set evs"
  proof
    assume "Update_One (uid u) \<in> set evs"
    with e have "cycle_event (users st) (Update_One (uid u))"
      by (auto simp: list_all_iff)
    then obtain v where v: "v \<in> set (users st)" "uid v = uid u" "\<not> falsy (email v)"
      by (auto simp: list_ex_iff)
    with assms(1,2) have "v = u"
      by (intro distinct_uid_eq [of "users st"]) simp_all
    with v(3) assms(4) show False by simp
  qed
  obtain u' where u': "u' \<in> set (users ?st')" "marked_by evs u u'"
    using list_all2_member [OF m assms(2)] by blast
  with upd have "u' = u"
    by (simp add: marked_by_def)
  with u' assms(3) have kept: "u \<in> set (filter pending (users ?st'))"
    by simp
  have sends: "to_email \<noteq> [] \<and> (\<exists>v\<in>set (users st). email v = Some to_email)"
    if "Send_Call to_email first_name \<in> set evs" for to_email first_name
  proof -
    from e that have "cycle_event (users st) (Send_Call to_email first_name)"
      by (auto simp: list_all_iff)
    then show ?thesis by (simp add: list_ex_iff)
  qed
  from body kept upd sends show ?thesis
    unfolding n by blast
qed

theorem no_email_never_sent_or_marked_witness:
  "distinct (map uid (users st0)) \<and> user_no_email \<in> set (users st0)
   \<and> pending user_no_email \<and> falsy (email user_no_email)
   \<and> fst (loop_body world_ok (read_config env_ok) user_no_email st0) = Inr ()
   \<and> user_no_email
       \<in> set (filter pending (users (snd (while_true world_ok (read_config env_ok) 60 2 st0))))
   \<and> Update_One (uid user_no_email)
       \<notin> set (new_events st0 (snd (while_true world_ok (read_config env_ok) 60 2 st0)))"
proof -
  have h: "distinct (map uid (users st0))" "user_no_email \<in> set (users st0)"
    "pending user_no_email" "falsy (email user_no_email)"
    by code_simp+
  show ?thesis
    using no_email_never_sent_or_marked [OF h, of world_ok "read_config env_ok" st0 60 2] h
    by simp
qed

subsection \<open>Failures inside a cycle\<close>

lemma update_one_send_calls:
  "filter is_send_call (trace (snd (update_one w i st))) = filter is_send_call (trace st)"
  by (simp add: update_one_def Let_def split: option.splits)

lemma loop_body_send_calls:
  "filter is_send_call (trace (snd (loop_body w cfg u st)))
     = filter is_send_call (trace st) @ send_call_for u"
proof -
  have s: "filter is_send_call (trace s1) = filter is_send_call (trace st) @ send_call_for u"
    if "email u = Some addr" and "addr \<noteq> []"
      and "send_welcome_email w cfg addr (case firstName u of None \<Rightarrow> ''User'' | Some n \<Rightarrow> n) st
             = (r, s1)"
    for addr r s1
    using that send_welcome_email_send_calls [of w cfg addr
        "case firstName u of None \<Rightarrow> ''User'' | Some n \<Rightarrow> n" st]
    by (simp add: send_call_for_def first_name_of_def)
  have m: "filter is_send_call (trace s2) = filter is_send_call (trace s1)"
    if "update_one w (uid u) s1 = (r, s2)" for r s1 s2
    using that update_one_send_calls [of w "uid u" s1] by simp
  show ?thesis
  proof (cases rule: loop_body_cases [of u w cfg st])
    case skip
    then show ?thesis
      by (auto simp: skip_user_def send_call_for_def falsy_def)
  next
    case (raised addr e s1)
    then show ?thesis using s by simp
  next
    case (failed addr s1)
    then show ?thesis using s by simp
  next
    case (marked addr s1 s2)
    then show ?thesis using s m by simp
  next
    case (mark_failed addr s1 x s2)
    then show ?thesis using s m by simp
  next
    case (mark_raised addr s1 x s2)
    then show ?thesis using s m by simp
  qed
qed

lemma update_one_raised:
  "update_one w i st = (Inl x, s2) \<Longrightarrow> \<exists>f. update_one_fault w (tick st) = Some f \<and> x = raised f"
  by (auto simp: update_one_def Let_def split: option.splits)

lemma loop_body_returns:
  assumes "\<And>t. update_one_fault w t \<noteq> Some Interrupt"
    and "\<And>to_email first_name s. \<exists>b. fst (send_welcome_email w cfg to_email first_name s) = Inr b"
  shows "fst (loop_body w cfg u st) = Inr ()"
proof (cases rule: loop_body_cases [of u w cfg st])
  case skip
  then show ?thesis by (simp add: skip_user_def)
next
  case (raised addr e s1)
  then show ?thesis
    using assms(2) [of addr "case firstName u of None \<Rightarrow> ''User'' | Some n \<Rightarrow> n" st] by simp
next
  case (mark_raised addr s1 x s2)
  then obtain f where "update_one_fault w (tick s1) = Some f" "x = raised f"
    using update_one_raised by blast
  with mark_raised assms(1) [of "tick s1"] show ?thesis by simp
qed simp_all

lemma for_users_exhausts:
  assumes "\<And>t. cursor_fault w t = None"
    and "\<And>t. update_one_fault w t \<noteq> Some Interrupt"
    and "\<And>to_email first_name s. \<exists>b. fst (send_welcome_email w cfg to_email first_name s) = Inr b"
  shows "fst (for_users w cfg us st) = Inr ()
       \<and> filter is_send_call (trace (snd (for_users w cfg us st)))
           = filter is_send_call (trace st) @ concat (map send_call_for us)"
proof (induction us arbitrary: st)
  case Nil
  show ?case by (simp add: assms(1))
next
  case (Cons u us)
  obtain r s1 where b: "loop_body w cfg u (external st) = (r, s1)"
    by (cases "loop_body w cfg u (external st)")
  have r: "r = Inr ()"
    using loop_body_returns [of w cfg u "external st"] assms(2,3) b by simp
  have c: "filter is_send_call (trace s1) = filter is_send_call (trace st) @ send_call_for u"
    using loop_body_send_calls [of w cfg u "external st"] b by simp
  have "for_users w cfg (u # us) st = for_users w cfg us s1"
    using b r by (simp add: assms(1))
  with Cons.IH [of s1] c show ?case
    by simp
qed

text \<open>
  C6.  Within one poll cycle, for a candidate \<open>u\<close> with an email address:
  when \<open>send_welcome_email\<close> reports failure, the loop body logs the error, leaves the
  collection as it was (the candidate is not marked) and returns normally; when the send
  succeeded and \<open>update_one\<close> raises an \<open>Exception\<close>, the loop body logs the error
  and returns normally, the collection unchanged.  A loop body that returns normally is
  followed by the rest of the candidates.  So, in a world where every send call reports
  a boolean and neither the cursor nor an update is interrupted, the loop returns
  normally after one send call for every candidate that has an address, in order:
  no failure stops it before the candidates are exhausted.
\<close>

theorem failure_does_not_abort_cycle:
  "(email u = Some addr \<and> addr \<noteq> [] \<and>
    send_welcome_email w cfg addr (first_name_of u) st = (Inr False, s1) \<longrightarrow>
      loop_body w cfg u st = (Inr (), logging ERROR (Will_Retry addr) s1)
      \<and> users s1 = users st)
   \<and> (email u = Some addr \<and> addr \<noteq> [] \<and>
      send_welcome_email w cfg addr (first_name_of u) st = (Inr True, s1) \<and>
      update_one_fault w (tick s1) = Some (Fails x) \<longrightarrow>
        loop_body w cfg u st
          = (Inr (), logging ERROR (Update_Failed addr (Exception x))
                       (external (emit (Update_One (uid u)) s1)))
        \<and> users s1 = users st)
   \<and> (cursor_fault w (tick st) = None \<and> loop_body w cfg u (external st) = (Inr (), s2) \<longrightarrow>
        for_users w cfg (u # us) st = for_users w cfg us s2)
   \<and> ((\<forall>t. cursor_fault w t = None) \<and> (\<forall>t. update_one_fault w t \<noteq> Some Interrupt) \<and>
      (\<forall>to_email first_name s.
         \<exists>b. fst (send_welcome_email w cfg to_email first_name s) = Inr b) \<longrightarrow>
        fst (for_users w cfg us st) = Inr ()
        \<and> filter is_send_call (trace (snd (for_users w cfg us st)))
            = filter is_send_call (trace st) @ concat (map send_call_for us))"
proof (intro conjI impI)
  assume a: "email u = Some addr \<and> addr \<noteq> [] \<and>
    send_welcome_email w cfg addr (first_name_of u) st = (Inr False, s1)"
  then show "loop_body w cfg u st = (Inr (), logging ERROR (Will_Retry addr) s1)"
    by (simp add: loop_body_def first_name_of_def)
  from a show "users s1 = users st"
    using send_welcome_email_users [of w cfg addr "first_name_of u" st] by simp
next
  assume a: "email u = Some addr \<and> addr \<noteq> [] \<and>
      send_welcome_email w cfg addr (first_name_of u) st = (Inr True, s1) \<and>
      update_one_fault w (tick s1) = Some (Fails x)"
  then have "update_one w (uid u) s1
      = (Inl (Exception x), external (emit (Update_One (uid u)) s1))"
    by (simp add: update_one_def Let_def)
  with a show "loop_body w cfg u st
          = (Inr (), logging ERROR (Update_Failed addr (Exception x))
                       (external (emit (Update_One (uid u)) s1)))"
    by (simp add: loop_body_def first_name_of_def)
  from a show "users s1 = users st"
    using send_welcome_email_users [of w cfg addr "first_name_of u" st] by simp
next
  assume "cursor_fault w (tick st) = None \<and> loop_body w cfg u (external st) = (Inr (), s2)"
  then show "for_users w cfg (u # us) st = for_users w cfg us s2"
    by simp
next
  assume a: "(\<forall>t. cursor_fault w t = None) \<and> (\<forall>t. update_one_fault w t \<noteq> Some Interrupt) \<and>
      (\<forall>to_email first_name s.
         \<exists>b. fst (send_welcome_email w cfg to_email first_name s) = Inr b)"
  then show "fst (for_users w cfg us st) = Inr ()"
    using for_users_exhausts [of w cfg us st] by blast
  from a show "filter is_send_call (trace (snd (for_users w cfg us st)))
            = filter is_send_call (trace st) @ concat (map send_call_for us)"
    using for_users_exhausts [of w cfg us st] by blast
qed


theorem failure_does_not_abort_cycle_witness:
  "email user_ada = Some ''ada@example.com''
   \<and> fst (send_welcome_email world_smtp_down (read_config env_ok) ''ada@example.com''
            (first_name_of user_ada) st0) = Inr False
   \<and> fst (loop_body world_smtp_down (read_config env_ok) user_ada st0) = Inr ()
   \<and> users (snd (loop_body world_smtp_down (read_config env_ok) user_ada st0)) = users st0
   \<and> fst (send_welcome_email world_update_down (read_config env_ok) ''ada@example.com''
            (first_name_of user_ada) st0) = Inr True
   \<and> fst (loop_body world_update_down (read_config env_ok) user_ada st0) = Inr ()
   \<and> users (snd (loop_body world_update_down (read_config env_ok) user_ada st0)) = users st0
   \<and> for_users world_smtp_down (read_config env_ok) [user_ada, user_no_email] st0
       = for_users world_smtp_down (read_config env_ok) [user_no_email]
           (snd (loop_body world_smtp_down (read_config env_ok) user_ada (external st0)))
   \<and> fst (for_users world_smtp_down (read_config env_ok) [user_no_email, user_ada] st0) = Inr ()
   \<and> filter is_send_call
         (trace (snd (for_users world_smtp_down (read_config env_ok) [user_no_email, user_ada] st0)))
       = [Send_Call ''ada@example.com'' ''Ada'']"
proof -
  let ?cfg = "read_config env_ok"
  let ?a = "''ada@example.com''"
  let ?down = "send_welcome_email world_smtp_down ?cfg ?a (first_name_of user_ada) st0"
  let ?ok = "send_welcome_email world_update_down ?cfg ?a (first_name_of user_ada) st0"
  let ?body = "loop_body world_smtp_down ?cfg user_ada (external st0)"
  have e: "email user_ada = Some ?a" "?a \<noteq> []"
    by (simp_all add: user_ada_def)
  have d: "fst ?down = Inr False"
    by code_simp
  then have d': "?down = (Inr False, snd ?down)"
    by (simp add: prod_eq_iff)
  have k: "fst ?ok = Inr True"
    by code_simp
  then have k': "?ok = (Inr True, snd ?ok)"
    by (simp add: prod_eq_iff)
  have f: "update_one_fault world_update_down (tick (snd ?ok)) = Some (Fails PyMongoError)"
    by (simp add: world_update_down_def)
  have c: "cursor_fault world_smtp_down (tick st0) = None"
    by (simp add: world_smtp_down_def world_ok_def)
  have b: "fst ?body = Inr ()"
    by code_simp
  then have b': "?body = (Inr (), snd ?body)"
    by (simp add: prod_eq_iff)
  have g: "\<forall>t. cursor_fault world_smtp_down t = None"
    "\<forall>t. update_one_fault world_smtp_down t \<noteq> Some Interrupt"
    "\<forall>to_email first_name s.
       \<exists>b. fst (send_welcome_email world_smtp_down ?cfg to_email first_name s) = Inr b"
    by (auto simp: send_welcome_email_def load_email_template_def world_smtp_down_def
          world_ok_def demo_render build_message_env_ok Let_def)
  have t: "trace st0 = []"
    "concat (map send_call_for [user_no_email, user_ada]) = [Send_Call ?a ''Ada'']"
    by (simp_all add: st0_def send_call_for_def first_name_of_def user_no_email_def user_ada_def)
  have 1: "loop_body world_smtp_down ?cfg user_ada st0
             = (Inr (), logging ERROR (Will_Retry ?a) (snd ?down))
           \<and> users (snd ?down) = users st0"
    using failure_does_not_abort_cycle [of user_ada ?a world_smtp_down ?cfg st0 "snd ?down"]
      e d' by blast
  have 2: "loop_body world_update_down ?cfg user_ada st0
             = (Inr (), logging ERROR (Update_Failed ?a (Exception PyMongoError))
                          (external (emit (Update_One (uid user_ada)) (snd ?ok))))
           \<and> users (snd ?ok) = users st0"
    using failure_does_not_abort_cycle [of user_ada ?a world_update_down ?cfg st0 "snd ?ok"
        PyMongoError] e k' f by blast
  have 3: "for_users world_smtp_down ?cfg [user_ada, user_no_email] st0
             = for_users world_smtp_down ?cfg [user_no_email] (snd ?body)"
    using failure_does_not_abort_cycle [of user_ada ?a world_smtp_down ?cfg st0 _ _
        "snd ?body" "[user_no_email]"] c b' by blast
  have 4: "fst (for_users world_smtp_down ?cfg [user_no_email, user_ada] st0) = Inr ()
           \<and> filter is_send_call
                (trace (snd (for_users world_smtp_down ?cfg [user_no_email, user_ada] st0)))
              = filter is_send_call (trace st0) @ concat (map send_call_for [user_no_email, user_ada])"
    using failure_does_not_abort_cycle [of _ _ world_smtp_down ?cfg st0 _ _ _
        "[user_no_email, user_ada]"] g by blast
  from e d k 1 2 3 4 t show ?thesis
    by simp
qed

subsection \<open>A missing template\<close>

lemma quiet_iff:
  "quiet st st' \<longleftrightarrow>
     (\<exists>evs. trace st' = trace st @ evs \<and> Logged ERROR Template_Not_Found \<notin> set evs)"
proof
  assume q: "quiet st st'"
  then have "trace st' = trace st @ new_events st st'"
    unfolding quiet_def new_events_def by (metis append_take_drop_id)
  with q show "\<exists>evs. trace st' = trace st @ evs \<and> Logged ERROR Template_Not_Found \<notin> set evs"
    unfolding quiet_def by blast
next
  assume "\<exists>evs. trace st' = trace st @ evs \<and> Logged ERROR Template_Not_Found \<notin> set evs"
  then show "quiet st st'"
    by (auto simp: quiet_def new_events_def)
qed

lemma exits_if_logged_iff:
  "exits_if_logged st (r, st') \<longleftrightarrow>
     (\<exists>evs. trace st' = trace st @ evs
            \<and> (Logged ERROR Template_Not_Found \<in> set evs \<longrightarrow> r = Inl (SystemExit 1)))"
proof
  assume e: "exits_if_logged st (r, st')"
  then have "trace st' = trace st @ new_events st st'"
    unfolding exits_if_logged_def new_events_def by (metis append_take_drop_id snd_conv)
  with e show "\<exists>evs. trace st' = trace st @ evs
            \<and> (Logged ERROR Template_Not_Found \<in> set evs \<longrightarrow> r = Inl (SystemExit 1))"
    unfolding exits_if_logged_def by (metis fst_conv snd_conv)
next
  assume "\<exists>evs. trace st' = trace st @ evs
            \<and> (Logged ERROR Template_Not_Found \<in> set evs \<longrightarrow> r = Inl (SystemExit 1))"
  then show "exits_if_logged st (r, st')"
    by (auto simp: exits_if_logged_def new_events_def)
qed

lemma quietI:
  "trace st' = trace st @ evs \<Longrightarrow> Logged ERROR Template_Not_Found \<notin> set evs \<Longrightarrow> quiet st st'"
  unfolding quiet_iff by blast

lemma quiet_refl [simp]: "quiet st st"
  by (rule quietI [where evs = "[]"]) simp_all

lemma quiet_trans: "quiet a b \<Longrightarrow> quiet b c \<Longrightarrow> quiet a c"
  unfolding quiet_iff by (metis Un_iff append.assoc set_append)

lemma quiet_external [simp]: "quiet st (external st)"
  by (rule quietI [where evs = "[]"]) simp_all

lemma quiet_emit: "ev \<noteq> Logged ERROR Template_Not_Found \<Longrightarrow> quiet st (emit ev st)"
  by (rule quietI [where evs = "[ev]"]) auto

lemma quiet_logging: "m \<noteq> Template_Not_Found \<Longrightarrow> quiet st (logging l m st)"
  by (rule quietI [where evs = "[Logged l m]"]) auto

lemma quiet_then_logging: "quiet st st' \<Longrightarrow> m \<noteq> Template_Not_Found \<Longrightarrow> quiet st (logging l m st')"
  by (erule quiet_trans) (rule quiet_logging)

lemma quiet_exits: "quiet st st' \<Longrightarrow> exits_if_logged st (r, st')"
  unfolding quiet_iff exits_if_logged_iff by blast

lemma exits_quiet: "exits_if_logged st (r, st') \<Longrightarrow> r \<noteq> Inl (SystemExit 1) \<Longrightarrow> quiet st st'"
  unfolding quiet_iff exits_if_logged_iff by blast

lemma quiet_then_exits: "quiet st s1 \<Longrightarrow> exits_if_logged s1 (r, s2) \<Longrightarrow> exits_if_logged st (r, s2)"
  unfolding quiet_iff exits_if_logged_iff by (metis Un_iff append.assoc set_append)

lemma exits_then_exit:
  "exits_if_logged st (r, s1) \<Longrightarrow> exits_if_logged st (Inl (SystemExit 1), logging l m s1)"
  unfolding exits_if_logged_iff by auto

lemma send_welcome_email_missing_template:
  "template_file w (tick st) = Inl (Fails FileNotFoundError) \<Longrightarrow>
   send_welcome_email w cfg to_email first_name st =
     (Inl (SystemExit 1),
      logging ERROR Template_Not_Found (external (emit (Send_Call to_email first_name) st)))"
  by (simp add: send_welcome_email_def load_email_template_def Let_def)

lemma exits_send_welcome_email:
  "exits_if_logged st (send_welcome_email w cfg to_email first_name st)"
  by (simp add: exits_if_logged_def new_events_def send_welcome_email_def
        load_email_template_def Let_def split: sum.splits option.splits)

lemma quiet_update_one: "quiet st (snd (update_one w i st))"
  by (rule quietI [where evs = "[Update_One i]"])
     (simp_all add: update_one_def Let_def split: option.splits)

lemma exits_loop_body: "exits_if_logged st (loop_body w cfg u st)"
proof -
  have s: "exits_if_logged st (r, s1)"
    if "send_welcome_email w cfg addr n st = (r, s1)" for addr n r s1
    using exits_send_welcome_email [of st w cfg addr n] that by simp
  have m: "quiet s1 s2" if "update_one w (uid u) s1 = (r, s2)" for r s1 s2
    using quiet_update_one [of s1 w "uid u"] that by simp
  show ?thesis
  proof (cases rule: loop_body_cases [of u w cfg st])
    case skip
    then show ?thesis
      by (simp add: skip_user_def quiet_exits quiet_logging)
  next
    case (raised addr e s1)
    then have "exits_if_logged st (Inl e :: py_exn + bool, s1)"
      using s by simp
    then have "exits_if_logged st (Inl e :: py_exn + unit, s1)"
      by (simp add: exits_if_logged_def)
    with raised show ?thesis by simp
  next
    case (failed addr s1)
    then have "quiet st s1"
      using s exits_quiet by blast
    with failed show ?thesis
      by (simp add: quiet_exits quiet_then_logging)
  next
    case (marked addr s1 s2)
    then have "quiet st s1" and "quiet s1 s2"
      using s m exits_quiet by blast+
    then have "quiet st s2" by (rule quiet_trans)
    with marked show ?thesis
      by (simp add: quiet_exits quiet_then_logging)
  next
    case (mark_failed addr s1 x s2)
    then have "quiet st s1" and "quiet s1 s2"
      using s m exits_quiet by blast+
    then have "quiet st s2" by (rule quiet_trans)
    with mark_failed show ?thesis
      by (simp add: quiet_exits quiet_then_logging)
  next
    case (mark_raised addr s1 x s2)
    then have "quiet st s1" and "quiet s1 s2"
      using s m exits_quiet by blast+
    then have "quiet st s2" by (rule quiet_trans)
    with mark_raised show ?thesis
      by (simp add: quiet_exits)
  qed
qed

lemma exits_for_users: "exits_if_logged st (for_users w cfg us st)"
proof (induction us arbitrary: st)
  case Nil
  show ?case by (simp add: quiet_exits split: option.splits)
next
  case (Cons u us)
  show ?case
  proof (cases "cursor_fault w (tick st)")
    case (Some f)
    then show ?thesis by (simp add: quiet_exits)
  next
    case None
    obtain r s1 where b: "loop_body w cfg u (external st) = (r, s1)"
      by (cases "loop_body w cfg u (external st)")
    then have "exits_if_logged (external st) (r, s1)"
      using exits_loop_body [of "external st" w cfg u] by simp
    then have 1: "exits_if_logged st (r, s1)"
      by (rule quiet_then_exits [OF quiet_external])
    show ?thesis
    proof (cases r)
      case (Inl e)
      with None b 1 show ?thesis by simp
    next
      case (Inr v)
      with 1 have "quiet st s1"
        by (auto dest: exits_quiet)
      then have "exits_if_logged st (for_users w cfg us s1)"
        using Cons.IH [of s1] by (cases "for_users w cfg us s1") (auto intro: quiet_then_exits)
      with None b Inr show ?thesis by simp
    qed
  qed
qed

lemma quiet_count_documents: "quiet st (snd (count_documents w st))"
  by (rule quietI [where evs = "[Count_Documents]"])
     (simp_all add: count_documents_def Let_def split: option.splits)

lemma quiet_find_users: "quiet st (snd (find_users w st))"
  by (rule quietI [where evs = "[Find_Query]"])
     (simp_all add: find_users_def Let_def split: option.splits)

lemma quiet_query_error: "quiet st (snd (query_error e st))"
  by (simp add: query_error_def quiet_logging)

lemma exits_process_users: "exits_if_logged st (process_users w cfg st)"
proof -
  obtain r s1 where c: "count_documents w st = (r, s1)"
    by (cases "count_documents w st")
  then have 1: "quiet st s1"
    using quiet_count_documents [of st w] by simp
  show ?thesis
  proof (cases r)
    case (Inl e)
    have "quiet st (snd (query_error e s1))"
      using 1 quiet_query_error by (rule quiet_trans)
    then have "exits_if_logged st (query_error e s1)"
      by (cases "query_error e s1") (auto intro: quiet_exits)
    with c Inl show ?thesis by (simp add: process_users_def)
  next
    case (Inr count)
    show ?thesis
    proof (cases "count = 0")
      case True
      with c Inr 1 show ?thesis
        by (simp add: process_users_def quiet_exits quiet_then_logging)
    next
      case False
      let ?s1 = "logging INFO (Found_Users count) s1"
      obtain r2 s2 where f: "find_users w ?s1 = (r2, s2)"
        by (cases "find_users w ?s1")
      then have "quiet ?s1 s2"
        using quiet_find_users [of ?s1 w] by simp
      with 1 have 2: "quiet st s2"
        by (meson quiet_trans quiet_then_logging log_msg.distinct)
      show ?thesis
      proof (cases r2)
        case (Inl e)
        have "quiet st (snd (query_error e s2))"
          using 2 quiet_query_error by (rule quiet_trans)
        then have "exits_if_logged st (query_error e s2)"
          by (cases "query_error e s2") (auto intro: quiet_exits)
        with c Inr False f Inl show ?thesis by (simp add: process_users_def)
      next
        case (Inr us)
        have "exits_if_logged st (for_users w cfg us s2)"
          using 2 exits_for_users [of s2 w cfg us]
          by (cases "for_users w cfg us s2") (auto intro: quiet_then_exits)
        with c \<open>r = Inr count\<close> False f Inr show ?thesis by (simp add: process_users_def)
      qed
    qed
  qed
qed

lemma quiet_sleep: "quiet st (snd (sleep w secs st))"
proof -
  have "quiet st (external (emit (Sleep secs) st))"
    by (rule quietI [where evs = "[Sleep secs]"]) simp_all
  then show ?thesis
    using sleep_snd_cases [of w secs st] by auto
qed

lemma exits_while_true:
  "exits_if_logged st
     (case fst (while_true w cfg secs fuel st) of None \<Rightarrow> Inr () | Some e \<Rightarrow> Inl e,
      snd (while_true w cfg secs fuel st))"
proof (induction fuel arbitrary: st)
  case 0
  show ?case by (simp add: quiet_exits)
next
  case (Suc fuel)
  obtain r s1 where p: "process_users w cfg st = (r, s1)"
    by (cases "process_users w cfg st")
  then have 1: "exits_if_logged st (r, s1)"
    using exits_process_users [of st w cfg] by simp
  show ?case
  proof (cases r)
    case (Inl e)
    with p 1 show ?thesis by simp
  next
    case (Inr u)
    with 1 have q1: "quiet st s1"
      by (auto dest: exits_quiet)
    let ?s1 = "logging INFO (Sleeping secs) s1"
    obtain r2 s2 where s: "sleep w secs ?s1 = (r2, s2)"
      by (cases "sleep w secs ?s1")
    then have "quiet ?s1 s2"
      using quiet_sleep [of ?s1 w secs] by simp
    with q1 have 2: "quiet st s2"
      by (meson quiet_trans quiet_then_logging log_msg.distinct)
    show ?thesis
    proof (cases r2)
      case (Inl e)
      with p Inr s 2 show ?thesis by (simp add: quiet_exits)
    next
      case (Inr v)
      have "exits_if_logged st
         (case fst (while_true w cfg secs fuel s2) of None \<Rightarrow> Inr () | Some e \<Rightarrow> Inl e,
          snd (while_true w cfg secs fuel s2))"
        using 2 Suc.IH [of s2] by (rule quiet_then_exits)
      with p \<open>r = Inr u\<close> s Inr show ?thesis by simp
    qed
  qed
qed

lemma quiet_connect: "quiet st (snd (connect w cfg st))"
proof -
  have "quiet st (external (emit Mongo_Client st))"
    by (rule quietI [where evs = "[Mongo_Client]"]) simp_all
  then show ?thesis
    by (auto simp: connect_def Let_def quiet_then_logging split: option.splits)
qed

lemma exits_send_test_email: "exits_if_logged st (send_test_email w cfg addr st)"
proof -
  let ?s0 = "logging INFO (Sending_Test addr) st"
  obtain r s1 where s: "send_welcome_email w cfg addr ''Test User'' ?s0 = (r, s1)"
    by (cases "send_welcome_email w cfg addr ''Test User'' ?s0")
  then have "exits_if_logged ?s0 (r, s1)"
    using exits_send_welcome_email [of ?s0 w cfg addr "''Test User''"] by simp
  moreover have "quiet st ?s0"
    by (rule quiet_logging) simp
  ultimately have 1: "exits_if_logged st (r, s1)"
    by (meson quiet_then_exits)
  show ?thesis
  proof (cases r)
    case (Inl e)
    with 1 have "exits_if_logged st (Inl e :: py_exn + unit, s1)"
      by (simp add: exits_if_logged_def)
    with s Inl show ?thesis by (simp add: send_test_email_def)
  next
    case (Inr b)
    with 1 have "quiet st s1"
      by (auto dest: exits_quiet)
    with s Inr show ?thesis
      by (simp add: send_test_email_def quiet_exits quiet_then_logging)
  qed
qed

lemma exits_main:
  "exits_if_logged st
     (case fst (main w cfg a fuel st) of None \<Rightarrow> Inr () | Some r \<Rightarrow> r,
      snd (main w cfg a fuel st))"
proof (cases "test a")
  case True
  have "exits_if_logged st (fst (send_test_email w cfg addr st), snd (send_test_email w cfg addr st))"
    for addr
    using exits_send_test_email [of st w cfg addr] by simp
  with True show ?thesis
    by (simp add: main_def case_prod_beta quiet_exits quiet_logging split: option.splits)
next
  case False
  let ?s1 = "snd (connect w cfg st)"
  let ?s2 = "logging INFO (Starting (interval a)) ?s1"
  let ?l = "while_true w cfg (interval a) fuel ?s2"
  have q: "quiet st ?s2"
    using quiet_connect [of st w cfg] by (rule quiet_then_logging) simp
  have e: "exits_if_logged st
             (case fst ?l of None \<Rightarrow> Inr () | Some e \<Rightarrow> Inl e, snd ?l)"
    using q exits_while_true [of ?s2 w cfg "interval a" fuel] by (rule quiet_then_exits)
  show ?thesis
  proof (cases "fst (connect w cfg st)")
    case (Inl x)
    with False show ?thesis
      using quiet_connect [of st w cfg]
      by (simp add: main_def case_prod_beta quiet_exits split: sum.splits)
  next
    case (Inr u)
    show ?thesis
    proof (cases "fst ?l")
      case None
      with False Inr e show ?thesis
        by (simp add: main_def case_prod_beta split: sum.splits)
    next
      case (Some x)
      show ?thesis
      proof (cases x)
        case (SystemExit n)
        with False Inr Some e show ?thesis
          by (simp add: main_def case_prod_beta split: sum.splits)
      next
        case KeyboardInterrupt
        with Some e have "quiet st (snd ?l)"
          by (auto dest: exits_quiet)
        with False Inr Some KeyboardInterrupt show ?thesis
          by (simp add: main_def case_prod_beta quiet_exits quiet_then_logging
                   split: sum.splits)
      next
        case (Exception y)
        with Some e have "quiet st (snd ?l)"
          by (auto dest: exits_quiet)
        with False Inr Some Exception show ?thesis
          by (simp add: main_def case_prod_beta quiet_exits quiet_then_logging
                   split: sum.splits)
      qed
    qed
  qed
qed

lemma program_template_error:
  assumes "Logged ERROR Template_Not_Found \<in> set (new_events st (snd (program w getenv a fuel st)))"
  shows "fst (program w getenv a fuel st) = Exited 1"
proof (cases "configured getenv")
  case False
  then show ?thesis by (simp add: program_fst)
next
  case True
  let ?m = "main w (read_config getenv) a fuel st"
  have "exits_if_logged st (case fst ?m of None \<Rightarrow> Inr () | Some r \<Rightarrow> r, snd ?m)"
    by (rule exits_main)
  moreover have "snd (program w getenv a fuel st) = snd ?m"
    using True by (simp add: program_snd)
  ultimately have "(case fst ?m of None \<Rightarrow> Inr () | Some r \<Rightarrow> r) = Inl (SystemExit 1)"
    using assms by (simp add: exits_if_logged_def)
  then have "fst ?m = Some (Inl (SystemExit 1))"
    by (simp split: option.splits)
  with True show ?thesis
    by (simp add: program_fst)
qed

text \<open>
  C2, amended.  For every recipient and name: when the template file is read and
  rendered and the message is built (lines 67-74), the call returns a boolean,
  \<open>True\<close> when the SMTP session succeeds and \<open>False\<close>, after logging the cause, when
  the session raises any \<open>Exception\<close> (transport, authentication, protocol).  When the
  template file is missing the call does not return: it logs the error and raises
  \<open>SystemExit(1)\<close>; and every run of the program, in any mode, in which that error was
  logged ends with exit status 1.
\<close>

theorem send_welcome_email_reports:
  "(template_file w (tick st) = Inr tmpl \<and>
    py_format (format_ext w) tmpl first_name (now_year w (tick st)) = Inr html \<and>
    build_message cfg to_email html = Inr msg \<longrightarrow>
      (smtp_session w (Suc (tick st)) = None \<longrightarrow>
         fst (send_welcome_email w cfg to_email first_name st) = Inr True) \<and>
      (smtp_session w (Suc (tick st)) = Some (Fails x) \<longrightarrow>
         fst (send_welcome_email w cfg to_email first_name st) = Inr False \<and>
         last (trace (snd (send_welcome_email w cfg to_email first_name st)))
           = Logged ERROR (Send_Failed to_email (Exception x))))
   \<and> (template_file w (tick st) = Inl (Fails FileNotFoundError) \<longrightarrow>
        send_welcome_email w cfg to_email first_name st =
          (Inl (SystemExit 1),
           logging ERROR Template_Not_Found (external (emit (Send_Call to_email first_name) st))))
   \<and> (Logged ERROR Template_Not_Found
         \<in> set (new_events st' (snd (program w' getenv a fuel st'))) \<longrightarrow>
        fst (program w' getenv a fuel st') = Exited 1)"
proof (intro conjI impI)
  assume "template_file w (tick st) = Inr tmpl \<and>
    py_format (format_ext w) tmpl first_name (now_year w (tick st)) = Inr html \<and>
    build_message cfg to_email html = Inr msg"
    and "smtp_session w (Suc (tick st)) = None"
  then show "fst (send_welcome_email w cfg to_email first_name st) = Inr True"
    by (simp add: send_welcome_email_def load_email_template_def Let_def)
next
  assume h: "template_file w (tick st) = Inr tmpl \<and>
    py_format (format_ext w) tmpl first_name (now_year w (tick st)) = Inr html \<and>
    build_message cfg to_email html = Inr msg"
    and f: "smtp_session w (Suc (tick st)) = Some (Fails x)"
  from h f show "fst (send_welcome_email w cfg to_email first_name st) = Inr False"
    by (simp add: send_welcome_email_def load_email_template_def Let_def)
  from h f show "last (trace (snd (send_welcome_email w cfg to_email first_name st)))
           = Logged ERROR (Send_Failed to_email (Exception x))"
    by (simp add: send_welcome_email_def load_email_template_def Let_def)
next
  assume "template_file w (tick st) = Inl (Fails FileNotFoundError)"
  then show "send_welcome_email w cfg to_email first_name st =
          (Inl (SystemExit 1),
           logging ERROR Template_Not_Found (external (emit (Send_Call to_email first_name) st)))"
    by (rule send_welcome_email_missing_template)
next
  assume "Logged ERROR Template_Not_Found
         \<in> set (new_events st' (snd (program w' getenv a fuel st')))"
  then show "fst (program w' getenv a fuel st') = Exited 1"
    by (rule program_template_error)
qed

theorem send_welcome_email_reports_witness:
  "template_file world_smtp_down (tick st0) = Inr demo_template
   \<and> py_format (format_ext world_smtp_down) demo_template ''Ada'' (now_year world_smtp_down (tick st0))
       = Inr ''<p>Hello Ada</p><p>(c) 2024 WildVision</p>''
   \<and> build_message (read_config env_ok) ''ada@example.com''
         ''<p>Hello Ada</p><p>(c) 2024 WildVision</p>''
       = Inr \<lparr>msg_from_name = ''Your App'', msg_from = ''bot@gmail.com'',
              msg_subject = ''Welcome to WildVision!'', msg_to = ''ada@example.com'',
              msg_html = ''<p>Hello Ada</p><p>(c) 2024 WildVision</p>''\<rparr>
   \<and> smtp_session world_smtp_down (Suc (tick st0)) = Some (Fails SMTPException)
   \<and> fst (send_welcome_email world_smtp_down (read_config env_ok) ''ada@example.com'' ''Ada'' st0)
       = Inr False
   \<and> smtp_session world_ok (Suc (tick st0)) = None
   \<and> fst (send_welcome_email world_ok (read_config env_ok) ''ada@example.com'' ''Ada'' st0)
       = Inr True
   \<and> template_file world_no_template (tick st0) = Inl (Fails FileNotFoundError)
   \<and> fst (send_welcome_email world_no_template (read_config env_ok) ''bob@example.com'' ''Bob'' st0)
       = Inl (SystemExit 1)
   \<and> Logged ERROR Template_Not_Found
       \<in> set (new_events st0 (snd (program world_no_template env_ok service_args 1 st0)))
   \<and> fst (program world_no_template env_ok service_args 1 st0) = Exited 1"
proof -
  let ?h = "''<p>Hello Ada</p><p>(c) 2024 WildVision</p>''"
  let ?m = "\<lparr>msg_from_name = ''Your App'', msg_from = ''bot@gmail.com'',
             msg_subject = ''Welcome to WildVision!'', msg_to = ''ada@example.com'',
             msg_html = ?h\<rparr>"
  let ?cfg = "read_config env_ok"
  have t: "template_file world_smtp_down (tick st0) = Inr demo_template"
    "template_file world_ok (tick st0) = Inr demo_template"
    by (simp_all add: world_smtp_down_def world_ok_def)
  have r: "py_format (format_ext world_smtp_down) demo_template ''Ada''
             (now_year world_smtp_down (tick st0)) = Inr ?h"
    "py_format (format_ext world_ok) demo_template ''Ada'' (now_year world_ok (tick st0)) = Inr ?h"
    by (simp_all add: demo_render world_smtp_down_def world_ok_def str_nat_2024 demo_pieces_def
             del: str_nat.simps)
  have b: "build_message ?cfg ''ada@example.com'' ?h = Inr ?m"
    by (rule build_message_env_ok)
  have s: "smtp_session world_smtp_down (Suc (tick st0)) = Some (Fails SMTPException)"
    "smtp_session world_ok (Suc (tick st0)) = None"
    by (simp_all add: world_smtp_down_def world_ok_def)
  have m: "template_file world_no_template (tick st0) = Inl (Fails FileNotFoundError)"
    by (simp add: world_no_template_def world_ok_def)
  have l: "Logged ERROR Template_Not_Found
       \<in> set (new_events st0 (snd (program world_no_template env_ok service_args 1 st0)))"
    by code_simp
  have 1: "fst (send_welcome_email world_smtp_down ?cfg ''ada@example.com'' ''Ada'' st0) = Inr False"
    using send_welcome_email_reports [of world_smtp_down st0 demo_template "''Ada''" ?h ?cfg
        "''ada@example.com''" ?m SMTPException] t r b s by blast
  have 2: "fst (send_welcome_email world_ok ?cfg ''ada@example.com'' ''Ada'' st0) = Inr True"
    using send_welcome_email_reports [of world_ok st0 demo_template "''Ada''" ?h ?cfg
        "''ada@example.com''" ?m SMTPException] t r b s by blast
  have 3: "fst (send_welcome_email world_no_template ?cfg ''bob@example.com'' ''Bob'' st0)
             = Inl (SystemExit 1)"
    using send_welcome_email_reports [of world_no_template st0 demo_template "''Bob''" ?h ?cfg
        "''bob@example.com''" ?m SMTPException] m by simp
  have 4: "fst (program world_no_template env_ok service_args 1 st0) = Exited 1"
    using send_welcome_email_reports [of world_ok st0 demo_template "''Ada''" ?h ?cfg
        "''ada@example.com''" ?m SMTPException st0 world_no_template env_ok service_args 1] l
    by blast
  from t r b s m l 1 2 3 4 show ?thesis
    by simp
qed

end
